theory Spec2Isabelle
  imports Main "HOL-Library.Word"
begin

section \<open>JavaScript strings\<close>

text \<open>
  A JavaScript string is a sequence of 16-bit code units. String literals of the source
  are ASCII apart from the bullet U+2022; \<open>js\<close> embeds an ASCII literal.
\<close>

type_synonym jschar = "16 word"
type_synonym jsstring = "jschar list"

definition js :: "string \<Rightarrow> jsstring" where
  "js s = map of_char s"

text \<open>
  \<open>String.prototype.trim\<close> strips the code units that ECMAScript calls WhiteSpace or
  LineTerminator from both ends.
\<close>

definition isWhiteSpace :: "jschar \<Rightarrow> bool" where
  "isWhiteSpace c =
     (List.member [0x09, 0x0A, 0x0B, 0x0C, 0x0D, 0x20, 0xA0, 0x1680, 0x2000, 0x2001,
        0x2002, 0x2003, 0x2004, 0x2005, 0x2006, 0x2007, 0x2008, 0x2009, 0x200A, 0x2028,
        0x2029, 0x202F, 0x205F, 0x3000, 0xFEFF] c)"

definition trim :: "jsstring \<Rightarrow> jsstring" where
  "trim s = rev (dropWhile isWhiteSpace (rev (dropWhile isWhiteSpace s)))"

text \<open>\<open>content.split(sep)\<close> for a separator of one code unit: never the empty array.\<close>

fun js_split :: "jschar \<Rightarrow> jsstring \<Rightarrow> jsstring list" where
  "js_split sep [] = [[]]"
| "js_split sep (c # cs) =
     (if c = sep then [] # js_split sep cs
      else (case js_split sep cs of
              [] \<Rightarrow> [[c]]
            | l # ls \<Rightarrow> (c # l) # ls))"

fun startsWith :: "jsstring \<Rightarrow> jsstring \<Rightarrow> bool" where
  "startsWith s [] = True"
| "startsWith [] (p # ps) = False"
| "startsWith (c # cs) (p # ps) = (c = p \<and> startsWith cs ps)"

section \<open>The page, the storage and the application state\<close>

text \<open>
  What a preview element displays is what was last assigned to it: \<open>textContent = t\<close>
  makes the element show the text \<open>t\<close> literally, \<open>innerHTML = h\<close> makes it show the
  markup \<open>h\<close> parsed as HTML.
\<close>

datatype content = TextContent jsstring | InnerHTML jsstring

text \<open>
  An element of the page carries the properties the source reads or writes: \<open>value\<close>
  (a string, as on a form control), the displayed content, \<open>classList\<close> and \<open>href\<close>.
\<close>

record element =
  el_value :: jsstring
  el_content :: content
  el_classList :: "jsstring list"
  el_href :: jsstring

datatype error = TypeError | SyntaxError

text \<open>
  \<open>document\<close> is \<open>document.getElementById\<close> (\<open>None\<close> is \<open>null\<close>), \<open>localStorage\<close> is
  \<open>localStorage.getItem\<close>, \<open>currentTheme\<close> is the field of the \<open>ResumeBuilder\<close> object
  and \<open>console\<close> the list of \<open>console.error\<close> calls made so far.
\<close>

record state =
  document :: "jsstring \<rightharpoonup> element"
  localStorage :: "jsstring \<rightharpoonup> jsstring"
  currentTheme :: jsstring
  console :: "(jsstring \<times> error) list"

text \<open>
  A method that can throw returns \<open>Inl (e, s)\<close>: the exception \<open>e\<close> and the state \<open>s\<close>
  reached when it was thrown (what was written before stays written).
\<close>

type_synonym outcome = "(error \<times> state) + state"

definition getElementById :: "state \<Rightarrow> jsstring \<Rightarrow> element option" where
  "getElementById s i = document s i"

definition setElement :: "jsstring \<Rightarrow> element \<Rightarrow> state \<Rightarrow> state" where
  "setElement i el s = s\<lparr>document := (document s)(i \<mapsto> el)\<rparr>"

text \<open>\<open>array.forEach(f)\<close> where \<open>f\<close> may throw: the first exception ends the loop.\<close>

fun forEach :: "('a \<Rightarrow> state \<Rightarrow> outcome) \<Rightarrow> 'a list \<Rightarrow> state \<Rightarrow> outcome" where
  "forEach f [] s = Inr s"
| "forEach f (x # xs) s =
     (case f x s of
        Inl e \<Rightarrow> Inl e
      | Inr s' \<Rightarrow> forEach f xs s')"

section \<open>The tables of the constructor\<close>

definition fieldMappings :: "(jsstring \<times> jsstring) list" where
  "fieldMappings =
     [(js ''input-name'', js ''preview-name''),
      (js ''input-title'', js ''preview-title''),
      (js ''input-phone'', js ''preview-phone''),
      (js ''input-email'', js ''preview-email''),
      (js ''input-location'', js ''preview-location''),
      (js ''input-linkedin'', js ''preview-linkedin''),
      (js ''input-summary'', js ''preview-summary''),
      (js ''input-experience'', js ''preview-experience''),
      (js ''input-education'', js ''preview-education''),
      (js ''input-skills'', js ''preview-skills'')]"

definition defaultValues :: "(jsstring \<times> jsstring) list" where
  "defaultValues =
     [(js ''preview-name'', js ''Your Name''),
      (js ''preview-title'', js ''Professional Title''),
      (js ''preview-phone'', js ''Phone''),
      (js ''preview-email'', js ''Email''),
      (js ''preview-location'', js ''Location''),
      (js ''preview-linkedin'', js ''LinkedIn''),
      (js ''preview-summary'', js ''Your professional summary will appear here...''),
      (js ''preview-experience'', js ''Your work experience will appear here...''),
      (js ''preview-education'', js ''Your education details will appear here...''),
      (js ''preview-skills'', js ''Your skills will appear here...'')]"

text \<open>
  The array literal of \<open>updatePreview\<close> and \<open>clearAllData\<close> naming the multi-line
  previews.
\<close>

definition multilinePreviews :: "jsstring list" where
  "multilinePreviews =
     [js ''preview-experience'', js ''preview-education'', js ''preview-skills'']"

text \<open>
  Reading a property of one of the two tables gives \<open>undefined\<close> (\<open>None\<close>) for a name
  that is not a key. Used as an element id or as a property name, \<open>undefined\<close> is the
  string "undefined". Only the tables' own keys are modelled; the members every object
  inherits (\<open>constructor\<close>, \<open>toString\<close>, ...) are functions whose string form is no
  element id of a page.
\<close>

definition idString :: "jsstring option \<Rightarrow> jsstring" where
  "idString p = (case p of None \<Rightarrow> js ''undefined'' | Some i \<Rightarrow> i)"

section \<open>formatMultilineContent\<close>

definition bulletBlock :: "jsstring \<Rightarrow> jsstring" where
  "bulletBlock line = js ''<div class=\"bullet-point\">'' @ line @ js ''</div>''"

definition plainBlock :: "jsstring \<Rightarrow> jsstring" where
  "plainBlock line = js ''<div>'' @ line @ js ''</div>''"

definition formatMultilineContent :: "jsstring \<Rightarrow> jsstring" where
  "formatMultilineContent content =
     (if content = [] \<or> Some content = map_of defaultValues (js ''preview-'' @ content)
      then content
      else concat
        (map (\<lambda>line. if startsWith line [0x2022] \<or> startsWith line (js ''-'')
                      then bulletBlock line
                      else plainBlock line)
          (filter (\<lambda>line. length line > 0)
            (map trim (js_split 0x0A content)))))"

section \<open>updatePreview\<close>

text \<open>
  The second argument is any value a parsed snapshot can hold (see \<open>json\<close> below in
  \<open>loadFromStorage\<close>); the listeners pass the string \<open>e.target.value\<close>. Calling
  \<open>value.trim()\<close> on anything but a string throws a TypeError, and the call is only
  reached when the preview element exists.
\<close>

datatype json =
    JNull
  | JBool bool
  | JNum jsstring
  | JStr jsstring
  | JArr "json list"
  | JObj "(jsstring \<times> json) list"

definition setTextContent :: "jsstring \<Rightarrow> element \<Rightarrow> jsstring option \<Rightarrow> state \<Rightarrow> state" where
  "setTextContent i el v s =
     setElement i (el\<lparr>el_content := TextContent (case v of None \<Rightarrow> [] | Some t \<Rightarrow> t)\<rparr>) s"

definition setInnerHTML :: "jsstring \<Rightarrow> element \<Rightarrow> jsstring option \<Rightarrow> state \<Rightarrow> state" where
  "setInnerHTML i el v s =
     setElement i (el\<lparr>el_content := InnerHTML (idString v)\<rparr>) s"

definition updatePreview :: "jsstring \<Rightarrow> json \<Rightarrow> state \<Rightarrow> outcome" where
  "updatePreview inputId v s =
     (let previewId = map_of fieldMappings inputId in
      case getElementById s (idString previewId) of
        None \<Rightarrow> Inr s
      | Some previewElement \<Rightarrow>
          (case v of
             JStr str \<Rightarrow>
               (let displayValue =
                      (if trim str \<noteq> [] then Some (trim str)
                       else map_of defaultValues (idString previewId)) in
                if previewId = Some (js ''preview-summary'')
                then Inr (setTextContent (idString previewId) previewElement displayValue s)
                else if List.member multilinePreviews (idString previewId)
                then Inr (setInnerHTML (idString previewId) previewElement
                            (map_option formatMultilineContent displayValue) s)
                else Inr (setTextContent (idString previewId) previewElement displayValue s))
           | _ \<Rightarrow> Inl (TypeError, s)))"

section \<open>switchTheme and initializeTheme\<close>

definition classList_remove :: "jsstring \<Rightarrow> jsstring list \<Rightarrow> jsstring list" where
  "classList_remove c cs = removeAll c cs"

definition classList_add :: "jsstring \<Rightarrow> jsstring list \<Rightarrow> jsstring list" where
  "classList_add c cs = (if List.member cs c then cs else cs @ [c])"

text \<open>
  \<open>document.querySelectorAll('.theme-btn').forEach(btn => btn.classList.remove('active'))\<close>:
  every element of class \<open>theme-btn\<close> loses the class \<open>active\<close>.
\<close>

definition deactivateThemeButtons :: "state \<Rightarrow> state" where
  "deactivateThemeButtons s =
     s\<lparr>document := (\<lambda>i. map_option
          (\<lambda>btn. if List.member (el_classList btn) (js ''theme-btn'')
                  then btn\<lparr>el_classList := classList_remove (js ''active'') (el_classList btn)\<rparr>
                  else btn)
          (document s i))\<rparr>"

definition switchTheme :: "jsstring \<Rightarrow> state \<Rightarrow> outcome" where
  "switchTheme themeName s =
     (case getElementById s (js ''theme-stylesheet'') of
        None \<Rightarrow> Inr s
      | Some themeStylesheet \<Rightarrow>
          (let s1 = setElement (js ''theme-stylesheet'')
                      (themeStylesheet\<lparr>el_href := js ''theme-'' @ themeName @ js ''.css''\<rparr>) s;
               s2 = s1\<lparr>currentTheme := themeName\<rparr>;
               s3 = deactivateThemeButtons s2 in
           case getElementById s3 (js ''theme-'' @ themeName) of
             None \<Rightarrow> Inl (TypeError, s3)
           | Some btn \<Rightarrow>
               (let s4 = setElement (js ''theme-'' @ themeName)
                           (btn\<lparr>el_classList := classList_add (js ''active'') (el_classList btn)\<rparr>) s3
                in Inr (s4\<lparr>localStorage := (localStorage s4)(js ''resumeTheme'' \<mapsto> themeName)\<rparr>))))"

definition initializeTheme :: "state \<Rightarrow> outcome" where
  "initializeTheme s =
     (let savedTheme = (case localStorage s (js ''resumeTheme'') of
                          None \<Rightarrow> js ''modern''
                        | Some t \<Rightarrow> if t = [] then js ''modern'' else t)
      in switchTheme savedTheme s)"

section \<open>clearAllData\<close>

text \<open>The argument \<open>confirmed\<close> is the answer the user gives to \<open>confirm(...)\<close>.\<close>

definition clearInput :: "jsstring \<Rightarrow> state \<Rightarrow> state" where
  "clearInput inputId s =
     (case getElementById s inputId of
        None \<Rightarrow> s
      | Some inputElement \<Rightarrow> setElement inputId (inputElement\<lparr>el_value := []\<rparr>) s)"

definition resetPreview :: "jsstring \<Rightarrow> state \<Rightarrow> state" where
  "resetPreview inputId s =
     (let previewId = map_of fieldMappings inputId in
      case getElementById s (idString previewId) of
        None \<Rightarrow> s
      | Some previewElement \<Rightarrow>
          (let defaultValue = map_of defaultValues (idString previewId) in
           if List.member multilinePreviews (idString previewId)
           then setInnerHTML (idString previewId) previewElement defaultValue s
           else setTextContent (idString previewId) previewElement defaultValue s))"

definition clearAllData :: "bool \<Rightarrow> state \<Rightarrow> state" where
  "clearAllData confirmed s =
     (if confirmed
      then (let s1 = fold clearInput (map fst fieldMappings) s;
                s2 = fold resetPreview (map fst fieldMappings) s1
            in s2\<lparr>localStorage := (localStorage s2)(js ''resumeFormData'' := None)\<rparr>)
      else s)"

section \<open>Objects and the order of their keys\<close>

text \<open>
  An object is the list of its own properties in the order they were created.
  \<open>Object.keys\<close> and \<open>JSON.stringify\<close> visit the keys that are array indices (the
  decimal numerals below \<open>2^32 - 1\<close>, without leading zeros) first, in ascending numeric
  order, and then the other keys in creation order; \<open>Object_entries\<close> is that order, each
  key with its value. Assigning to a key that exists replaces its value in place, and a new
  key goes to the end (\<open>setProperty\<close>).
\<close>

definition isDigit :: "jschar \<Rightarrow> bool" where
  "isDigit c = (48 \<le> unat c \<and> unat c \<le> 57)"

definition digitsValue :: "jsstring \<Rightarrow> nat" where
  "digitsValue ds = foldl (\<lambda>n c. 10 * n + (unat c - 48)) 0 ds"

definition isArrayIndex :: "jsstring \<Rightarrow> bool" where
  "isArrayIndex k =
     (case k of
        [] \<Rightarrow> False
      | c # cs \<Rightarrow> list_all isDigit k \<and> (if c = 0x30 then cs = [] else True) \<and>
                 digitsValue k < 2 ^ 32 - 1)"

definition Object_entries :: "(jsstring \<times> 'a) list \<Rightarrow> (jsstring \<times> 'a) list" where
  "Object_entries obj =
     sort_key (\<lambda>kv. digitsValue (fst kv)) (filter (\<lambda>kv. isArrayIndex (fst kv)) obj) @
     filter (\<lambda>kv. \<not> isArrayIndex (fst kv)) obj"

fun setProperty :: "jsstring \<Rightarrow> 'a \<Rightarrow> (jsstring \<times> 'a) list \<Rightarrow> (jsstring \<times> 'a) list" where
  "setProperty k v [] = [(k, v)]"
| "setProperty k v (kv # obj) =
     (if fst kv = k then (k, v) # obj else kv # setProperty k v obj)"

section \<open>JSON.stringify of an object whose properties are strings\<close>

text \<open>
  \<open>saveToStorage\<close> stringifies \<open>formData\<close>, whose values are the strings read from the
  inputs. A string is written between double quotes: the quote, the backslash and the
  control characters are escaped, a surrogate that is not part of a pair is written as a
  four-digit escape with lower-case digits, and every other code unit stands for itself.
\<close>

definition hexDigit :: "nat \<Rightarrow> jschar" where
  "hexDigit n = of_nat (if n < 10 then 48 + n else 87 + n)"

definition unicodeEscape :: "jschar \<Rightarrow> jsstring" where
  "unicodeEscape c =
     [0x5C, 0x75, hexDigit (unat c div 4096), hexDigit (unat c div 256 mod 16),
      hexDigit (unat c div 16 mod 16), hexDigit (unat c mod 16)]"

definition quoteChar :: "jschar \<Rightarrow> jsstring" where
  "quoteChar c =
     (if c = 0x08 then [0x5C, 0x62]
      else if c = 0x09 then [0x5C, 0x74]
      else if c = 0x0A then [0x5C, 0x6E]
      else if c = 0x0C then [0x5C, 0x66]
      else if c = 0x0D then [0x5C, 0x72]
      else if c = 0x22 then [0x5C, 0x22]
      else if c = 0x5C then [0x5C, 0x5C]
      else if unat c < 0x20 then unicodeEscape c
      else [c])"

definition isLeadSurrogate :: "jschar \<Rightarrow> bool" where
  "isLeadSurrogate c = (0xD800 \<le> unat c \<and> unat c \<le> 0xDBFF)"

definition isTrailSurrogate :: "jschar \<Rightarrow> bool" where
  "isTrailSurrogate c = (0xDC00 \<le> unat c \<and> unat c \<le> 0xDFFF)"

fun quoteChars :: "jsstring \<Rightarrow> jsstring" where
  "quoteChars [] = []"
| "quoteChars [c] =
     (if isLeadSurrogate c \<or> isTrailSurrogate c then unicodeEscape c else quoteChar c)"
| "quoteChars (c # d # ds) =
     (if isLeadSurrogate c \<and> isTrailSurrogate d then c # d # quoteChars ds
      else if isLeadSurrogate c \<or> isTrailSurrogate c then unicodeEscape c @ quoteChars (d # ds)
      else quoteChar c @ quoteChars (d # ds))"

definition QuoteJSONString :: "jsstring \<Rightarrow> jsstring" where
  "QuoteJSONString s = 0x22 # quoteChars s @ [0x22]"

fun joinWith :: "jsstring \<Rightarrow> jsstring list \<Rightarrow> jsstring" where
  "joinWith sep [] = []"
| "joinWith sep [x] = x"
| "joinWith sep (x # y # ys) = x @ sep @ joinWith sep (y # ys)"

definition stringifyMember :: "jsstring \<times> jsstring \<Rightarrow> jsstring" where
  "stringifyMember kv = QuoteJSONString (fst kv) @ js '':'' @ QuoteJSONString (snd kv)"

definition JSON_stringify :: "(jsstring \<times> jsstring) list \<Rightarrow> jsstring" where
  "JSON_stringify obj =
     js ''{'' @ joinWith (js '','') (map stringifyMember (Object_entries obj)) @ js ''}''"

section \<open>JSON.parse\<close>

text \<open>
  The JSON grammar of ECMAScript over code units: white space is space, tab, line feed
  and carriage return; a string may hold any code unit from U+0020 on except the quote
  and the backslash, and the escapes of the quote, the backslash, the slash, of b, f, n,
  r and t, and of four hexadecimal digits after u.
\<close>

definition isJsonWhiteSpace :: "jschar \<Rightarrow> bool" where
  "isJsonWhiteSpace c = (c = 0x20 \<or> c = 0x09 \<or> c = 0x0A \<or> c = 0x0D)"

definition skipWs :: "jsstring \<Rightarrow> jsstring" where
  "skipWs s = dropWhile isJsonWhiteSpace s"

definition hexValue :: "jschar \<Rightarrow> nat option" where
  "hexValue c =
     (let n = unat c in
      if 48 \<le> n \<and> n \<le> 57 then Some (n - 48)
      else if 97 \<le> n \<and> n \<le> 102 then Some (n - 87)
      else if 65 \<le> n \<and> n \<le> 70 then Some (n - 55)
      else None)"

definition hex4 :: "jschar \<Rightarrow> jschar \<Rightarrow> jschar \<Rightarrow> jschar \<Rightarrow> jschar option" where
  "hex4 a b c d =
     (case hexValue a of None \<Rightarrow> None | Some w \<Rightarrow>
      case hexValue b of None \<Rightarrow> None | Some x \<Rightarrow>
      case hexValue c of None \<Rightarrow> None | Some y \<Rightarrow>
      case hexValue d of None \<Rightarrow> None | Some z \<Rightarrow>
        Some (of_nat (w * 4096 + x * 256 + y * 16 + z)))"

definition unescape :: "jschar \<Rightarrow> jschar option" where
  "unescape e =
     (if e = 0x22 then Some 0x22
      else if e = 0x5C then Some 0x5C
      else if e = 0x2F then Some 0x2F
      else if e = 0x62 then Some 0x08
      else if e = 0x66 then Some 0x0C
      else if e = 0x6E then Some 0x0A
      else if e = 0x72 then Some 0x0D
      else if e = 0x74 then Some 0x09
      else None)"

definition consChar :: "jschar \<Rightarrow> (jsstring \<times> jsstring) option \<Rightarrow> (jsstring \<times> jsstring) option" where
  "consChar c r = (case r of None \<Rightarrow> None | Some (str, rest) \<Rightarrow> Some (c # str, rest))"

fun parseChars :: "jsstring \<Rightarrow> (jsstring \<times> jsstring) option" where
  "parseChars [] = None"
| "parseChars (c # cs) =
     (if c = 0x22 then Some ([], cs)
      else if c = 0x5C then
        (case cs of
           [] \<Rightarrow> None
         | e # es \<Rightarrow>
             if e = 0x75 then
               (case es of
                  h1 # h2 # h3 # h4 # rest \<Rightarrow>
                    (case hex4 h1 h2 h3 h4 of
                       None \<Rightarrow> None
                     | Some u \<Rightarrow> consChar u (parseChars rest))
                | _ \<Rightarrow> None)
             else
               (case unescape e of
                  None \<Rightarrow> None
                | Some u \<Rightarrow> consChar u (parseChars es)))
      else if unat c < 0x20 then None
      else consChar c (parseChars cs))"

text \<open>A number is kept as its lexeme.\<close>

definition parseDigits :: "jsstring \<Rightarrow> (jsstring \<times> jsstring) option" where
  "parseDigits s =
     (if takeWhile isDigit s = [] then None
      else Some (takeWhile isDigit s, dropWhile isDigit s))"

definition parseInt :: "jsstring \<Rightarrow> (jsstring \<times> jsstring) option" where
  "parseInt s =
     (case s of
        [] \<Rightarrow> None
      | c # cs \<Rightarrow> if c = 0x30 then Some ([c], cs) else parseDigits s)"

definition parseFrac :: "jsstring \<Rightarrow> (jsstring \<times> jsstring) option" where
  "parseFrac s =
     (case s of
        [] \<Rightarrow> Some ([], s)
      | c # cs \<Rightarrow>
          if c = 0x2E then
            (case parseDigits cs of None \<Rightarrow> None | Some (ds, r) \<Rightarrow> Some (c # ds, r))
          else Some ([], s))"

definition parseExp :: "jsstring \<Rightarrow> (jsstring \<times> jsstring) option" where
  "parseExp s =
     (case s of
        [] \<Rightarrow> Some ([], s)
      | c # cs \<Rightarrow>
          if c = 0x65 \<or> c = 0x45 then
            (case cs of
               [] \<Rightarrow> None
             | g # gs \<Rightarrow>
                 if g = 0x2B \<or> g = 0x2D then
                   (case parseDigits gs of None \<Rightarrow> None | Some (ds, r) \<Rightarrow> Some (c # g # ds, r))
                 else
                   (case parseDigits cs of None \<Rightarrow> None | Some (ds, r) \<Rightarrow> Some (c # ds, r)))
          else Some ([], s))"

definition parseNumber :: "jsstring \<Rightarrow> (jsstring \<times> jsstring) option" where
  "parseNumber s =
     (let sign = (case s of [] \<Rightarrow> [] | c # cs \<Rightarrow> if c = 0x2D then [c] else []);
          s1 = drop (length sign) s in
      case parseInt s1 of None \<Rightarrow> None | Some (i, s2) \<Rightarrow>
      case parseFrac s2 of None \<Rightarrow> None | Some (f, s3) \<Rightarrow>
      case parseExp s3 of None \<Rightarrow> None | Some (e, s4) \<Rightarrow>
        Some (sign @ i @ f @ e, s4))"

text \<open>
  The parser consumes input: what \<open>parseChars\<close> leaves is shorter than what it was
  given. This is what makes the recursive descent below terminate.
\<close>

lemma skipWs_Cons_length: "skipWs s = c # cs \<Longrightarrow> length cs < length s"
  using length_dropWhile_le [of isJsonWhiteSpace s] by (simp add: skipWs_def)

lemma consChar_Some: "consChar c r = Some (str, rest) \<Longrightarrow> \<exists>str'. r = Some (str', rest)"
  by (auto simp: consChar_def split: option.splits)

lemma parseChars_step:
  assumes "parseChars (c # cs) = Some (str, r)"
  shows "r = cs \<or> (\<exists>t str'. length t \<le> length cs \<and> parseChars t = Some (str', r))"
proof (cases "c = 0x22")
  case True
  with assms show ?thesis by simp
next
  case q: False
  show ?thesis
  proof (cases "c = 0x5C")
    case False
    with q assms obtain str' where "parseChars cs = Some (str', r)"
      by (auto split: if_splits dest!: consChar_Some)
    then show ?thesis by auto
  next
    case True
    show ?thesis
    proof (cases cs)
      case Nil
      with q True assms show ?thesis by simp
    next
      case (Cons e es)
      show ?thesis
      proof (cases "e = 0x75")
        case False
        with q True Cons assms obtain str' where "parseChars es = Some (str', r)"
          by (auto split: option.splits dest!: consChar_Some)
        with Cons show ?thesis by auto
      next
        case u: True
        with q True Cons assms obtain h1 h2 h3 h4 rest where
          es: "es = h1 # h2 # h3 # h4 # rest"
          by (auto split: list.splits)
        with q True Cons u assms obtain str' where "parseChars rest = Some (str', r)"
          by (auto split: option.splits dest!: consChar_Some)
        with Cons es show ?thesis by auto
      qed
    qed
  qed
qed

lemma parseChars_length: "parseChars s = Some (str, r) \<Longrightarrow> length r < length s"
proof (induction "length s" arbitrary: s str rule: less_induct)
  case less
  show ?case
  proof (cases s)
    case Nil
    with less.prems show ?thesis by simp
  next
    case (Cons c cs)
    with less.prems have "r = cs \<or> (\<exists>t str'. length t \<le> length cs \<and> parseChars t = Some (str', r))"
      using parseChars_step by blast
    then show ?thesis
    proof
      assume "r = cs"
      with Cons show ?thesis by simp
    next
      assume "\<exists>t str'. length t \<le> length cs \<and> parseChars t = Some (str', r)"
      then obtain t str' where t: "length t \<le> length cs" "parseChars t = Some (str', r)"
        by blast
      with Cons have "length t < length s" by simp
      from less.hyps [OF this t(2)] this show ?thesis by simp
    qed
  qed
qed

text \<open>
  \<open>parseValue\<close> reads one JSON value and returns it with the input that follows;
  \<open>parseElements\<close> reads the rest of an array and \<open>parseMembers\<close> the rest of an
  object, each after the opening bracket, with what was read so far. A repeated key
  keeps its first place and takes the last value. The tests \<open>length r < length s\<close>
  always succeed (\<open>parser_consumes\<close>, \<open>parseElements_unguarded\<close>,
  \<open>parseMembers_unguarded\<close>).
\<close>

function parseValue :: "jsstring \<Rightarrow> (json \<times> jsstring) option"
  and parseElements :: "json list \<Rightarrow> jsstring \<Rightarrow> (json \<times> jsstring) option"
  and parseMembers :: "(jsstring \<times> json) list \<Rightarrow> jsstring \<Rightarrow> (json \<times> jsstring) option"
where
  "parseValue s =
     (case skipWs s of
        [] \<Rightarrow> None
      | c # cs \<Rightarrow>
          if c = 0x7B then
            (case skipWs cs of
               [] \<Rightarrow> None
             | d # ds \<Rightarrow> if d = 0x7D then Some (JObj [], ds) else parseMembers [] cs)
          else if c = 0x5B then
            (case skipWs cs of
               [] \<Rightarrow> None
             | d # ds \<Rightarrow> if d = 0x5D then Some (JArr [], ds) else parseElements [] cs)
          else if c = 0x22 then
            (case parseChars cs of
               None \<Rightarrow> None
             | Some (str, r) \<Rightarrow> Some (JStr str, r))
          else if startsWith (c # cs) (js ''true'') then Some (JBool True, drop 4 (c # cs))
          else if startsWith (c # cs) (js ''false'') then Some (JBool False, drop 5 (c # cs))
          else if startsWith (c # cs) (js ''null'') then Some (JNull, drop 4 (c # cs))
          else
            (case parseNumber (c # cs) of
               None \<Rightarrow> None
             | Some (n, r) \<Rightarrow> Some (JNum n, r)))"
| "parseElements acc s =
     (case parseValue s of
        None \<Rightarrow> None
      | Some (v, r) \<Rightarrow>
          if length r < length s then
            (case skipWs r of
               [] \<Rightarrow> None
             | c # cs \<Rightarrow>
                 if c = 0x2C then parseElements (acc @ [v]) cs
                 else if c = 0x5D then Some (JArr (acc @ [v]), cs)
                 else None)
          else None)"
| "parseMembers acc s =
     (case skipWs s of
        [] \<Rightarrow> None
      | q # cs \<Rightarrow>
          if q = 0x22 then
            (case parseChars cs of
               None \<Rightarrow> None
             | Some (k, r) \<Rightarrow>
                 (case skipWs r of
                    [] \<Rightarrow> None
                  | d # ds \<Rightarrow>
                      if d = 0x3A then
                        (case parseValue ds of
                           None \<Rightarrow> None
                         | Some (v, r') \<Rightarrow>
                             if length r' < length ds then
                               (case skipWs r' of
                                  [] \<Rightarrow> None
                                | e # es \<Rightarrow>
                                    if e = 0x2C then parseMembers (setProperty k v acc) es
                                    else if e = 0x7D then Some (JObj (setProperty k v acc), es)
                                    else None)
                             else None)
                      else None))
          else None)"
  by pat_completeness auto
termination
proof (relation "measure (\<lambda>x. case x of
         Inl s \<Rightarrow> 2 * length s
       | Inr (Inl (acc, s)) \<Rightarrow> 2 * length s + 1
       | Inr (Inr (acc, s)) \<Rightarrow> 2 * length s + 1)", goal_cases)
  case 1
  show ?case by simp
next
  case 2
  then show ?case by (auto dest!: skipWs_Cons_length)
next
  case 3
  then show ?case by (auto dest!: skipWs_Cons_length)
next
  case 4
  then show ?case by simp
next
  case 5
  then show ?case by (auto dest!: skipWs_Cons_length)
next
  case (6 acc s q cs x2 k r d ds)
  from 6(1) have "length cs < length s" by (rule skipWs_Cons_length)
  moreover from 6(3,4) have "length r < length cs" by (auto dest: parseChars_length)
  moreover from 6(5) have "length ds < length r" by (rule skipWs_Cons_length)
  ultimately show ?case by simp
next
  case (7 acc s q cs x2 k r d ds x2a v r' e es)
  from 7(1) have "length cs < length s" by (rule skipWs_Cons_length)
  moreover from 7(3,4) have "length r < length cs" by (auto dest: parseChars_length)
  moreover from 7(5) have "length ds < length r" by (rule skipWs_Cons_length)
  moreover from 7(10) have "length es < length r'" by (rule skipWs_Cons_length)
  ultimately show ?case using 7(9) by simp
qed

text \<open>\<open>JSON.parse(text)\<close>: one value, white space around it, and nothing else.\<close>

definition JSON_parse :: "jsstring \<Rightarrow> error + json" where
  "JSON_parse text =
     (case parseValue text of
        None \<Rightarrow> Inl SyntaxError
      | Some (v, r) \<Rightarrow> if skipWs r = [] then Inr v else Inl SyntaxError)"

section \<open>Values of a parsed snapshot\<close>

text \<open>
  Numbers are IEEE doubles in JavaScript; the model keeps a number as the lexeme that was
  parsed and takes from the engine the two operations on numbers that \<open>loadFromStorage\<close>
  can reach: whether the number is truthy (not zero) and its string form.
\<close>

record engine =
  numberToBoolean :: "jsstring \<Rightarrow> bool"
  numberToString :: "jsstring \<Rightarrow> jsstring"

fun ToBoolean :: "engine \<Rightarrow> json \<Rightarrow> bool" where
  "ToBoolean h JNull = False"
| "ToBoolean h (JBool b) = b"
| "ToBoolean h (JNum n) = numberToBoolean h n"
| "ToBoolean h (JStr str) = (str \<noteq> [])"
| "ToBoolean h (JArr xs) = True"
| "ToBoolean h (JObj obj) = True"

text \<open>
  The string a value is converted to when it is assigned to \<open>inputElement.value\<close>. An
  array is joined with commas (\<open>null\<close> elements are empty). An object is
  "[object Object]", unless it has a property \<open>toString\<close> of its own: a parsed property
  is never callable, and the conversion throws a TypeError.
\<close>

fun js_ToString :: "engine \<Rightarrow> json \<Rightarrow> error + jsstring"
  and joinElements :: "engine \<Rightarrow> json list \<Rightarrow> error + jsstring"
where
  "js_ToString h JNull = Inr (js ''null'')"
| "js_ToString h (JBool b) = Inr (if b then js ''true'' else js ''false'')"
| "js_ToString h (JNum n) = Inr (numberToString h n)"
| "js_ToString h (JStr str) = Inr str"
| "js_ToString h (JArr xs) = joinElements h xs"
| "js_ToString h (JObj obj) =
     (case map_of obj (js ''toString'') of
        None \<Rightarrow> Inr (js ''[object Object]'')
      | Some m \<Rightarrow> Inl TypeError)"
| "joinElements h [] = Inr []"
| "joinElements h (x # xs) =
     (case (if x = JNull then Inr [] else js_ToString h x) of
        Inl e \<Rightarrow> Inl e
      | Inr a \<Rightarrow>
          if xs = [] then Inr a
          else (case joinElements h xs of
                  Inl e \<Rightarrow> Inl e
                | Inr b \<Rightarrow> Inr (a @ js '','' @ b)))"

function natToString :: "nat \<Rightarrow> jsstring" where
  "natToString n =
     (if n < 10 then [of_nat (48 + n)]
      else natToString (n div 10) @ [of_nat (48 + n mod 10)])"
  by pat_completeness auto
termination
  by (relation "measure id") auto

text \<open>
  \<open>Object.keys(formData)\<close>, each key with the value \<open>formData[key]\<close> that the loop body
  reads: a TypeError for \<open>null\<close>, nothing for a boolean or a number, the indices for a
  string or an array, the properties in key order for an object.
\<close>

definition ownEntries :: "json \<Rightarrow> error + (jsstring \<times> json) list" where
  "ownEntries formData =
     (case formData of
        JNull \<Rightarrow> Inl TypeError
      | JBool b \<Rightarrow> Inr []
      | JNum n \<Rightarrow> Inr []
      | JStr str \<Rightarrow> Inr (zip (map natToString [0..<length str]) (map (\<lambda>c. JStr [c]) str))
      | JArr xs \<Rightarrow> Inr (zip (map natToString [0..<length xs]) xs)
      | JObj obj \<Rightarrow> Inr (Object_entries obj))"

section \<open>saveToStorage and the input listener\<close>

definition collectInput :: "state \<Rightarrow> jsstring \<Rightarrow> (jsstring \<times> jsstring) list \<Rightarrow> (jsstring \<times> jsstring) list" where
  "collectInput s inputId formData =
     (case getElementById s inputId of
        None \<Rightarrow> formData
      | Some inputElement \<Rightarrow> setProperty inputId (el_value inputElement) formData)"

definition saveToStorage :: "state \<Rightarrow> state" where
  "saveToStorage s =
     (let formData = fold (collectInput s) (map fst (Object_entries fieldMappings)) []
      in s\<lparr>localStorage := (localStorage s)(js ''resumeFormData'' \<mapsto> JSON_stringify formData)\<rparr>)"

text \<open>
  The listener of the \<open>input\<close> event on the input \<open>inputId\<close>, called with
  \<open>e.target.value = v\<close>.
\<close>

definition inputListener :: "jsstring \<Rightarrow> jsstring \<Rightarrow> state \<Rightarrow> outcome" where
  "inputListener inputId v s =
     (case updatePreview inputId (JStr v) s of
        Inl e \<Rightarrow> Inl e
      | Inr s' \<Rightarrow> Inr (saveToStorage s'))"

section \<open>loadFromStorage\<close>

text \<open>The body of the loop over \<open>Object.keys(formData)\<close>.\<close>

definition loadField :: "engine \<Rightarrow> jsstring \<times> json \<Rightarrow> state \<Rightarrow> outcome" where
  "loadField h kv s =
     (case getElementById s (fst kv) of
        None \<Rightarrow> Inr s
      | Some inputElement \<Rightarrow>
          if ToBoolean h (snd kv) then
            (case js_ToString h (snd kv) of
               Inl e \<Rightarrow> Inl (e, s)
             | Inr str \<Rightarrow>
                 updatePreview (fst kv) (snd kv)
                   (setElement (fst kv) (inputElement\<lparr>el_value := str\<rparr>) s))
          else Inr s)"

text \<open>The \<open>try\<close> block: what is thrown inside comes out as \<open>Inl\<close>.\<close>

definition loadTry :: "engine \<Rightarrow> jsstring \<Rightarrow> state \<Rightarrow> outcome" where
  "loadTry h savedData s =
     (case JSON_parse savedData of
        Inl e \<Rightarrow> Inl (e, s)
      | Inr formData \<Rightarrow>
          (case ownEntries formData of
             Inl e \<Rightarrow> Inl (e, s)
           | Inr entries \<Rightarrow> forEach (loadField h) entries s))"

definition loadFromStorage :: "engine \<Rightarrow> state \<Rightarrow> outcome" where
  "loadFromStorage h s =
     (case localStorage s (js ''resumeFormData'') of
        None \<Rightarrow> Inr s
      | Some savedData \<Rightarrow>
          if savedData = [] then Inr s
          else
            (case loadTry h savedData s of
               Inl (error, s') \<Rightarrow>
                 Inr (s'\<lparr>console := console s' @ [(js ''Error loading saved data:'', error)]\<rparr>)
             | Inr s' \<Rightarrow> Inr s'))"

section \<open>Blocks rendered by formatMultilineContent\<close>

text \<open>
  The specification describes the result of \<open>formatMultilineContent\<close> as a sequence of
  blocks: the content is split on line breaks, each line is trimmed, empty lines are
  discarded, and a surviving line is a bullet block when it begins with the bullet or
  with a hyphen, a plain block otherwise. \<open>specBlocks\<close> follows these words;
  \<open>renderBlock\<close> is the markup of one block.
\<close>

datatype block = BulletBlock jsstring | PlainBlock jsstring

definition lineBlock :: "jsstring \<Rightarrow> block list" where
  "lineBlock line =
     (let t = trim line in
      if t = [] then []
      else if startsWith t [0x2022] \<or> startsWith t [0x2D] then [BulletBlock t]
      else [PlainBlock t])"

definition specBlocks :: "jsstring \<Rightarrow> block list" where
  "specBlocks content = concat (map lineBlock (js_split 0x0A content))"

fun renderBlock :: "block \<Rightarrow> jsstring" where
  "renderBlock (BulletBlock l) = bulletBlock l"
| "renderBlock (PlainBlock l) = plainBlock l"

section \<open>Observations and an example page\<close>

definition shown :: "state \<Rightarrow> jsstring \<Rightarrow> content option" where
  "shown s p = map_option el_content (document s p)"

definition inputValue :: "state \<Rightarrow> jsstring \<Rightarrow> jsstring option" where
  "inputValue s i = map_option el_value (document s i)"

definition blank :: element where
  "blank = \<lparr>el_value = [], el_content = TextContent [], el_classList = [], el_href = []\<rparr>"

text \<open>
  A page with the ten inputs (empty), the ten previews (showing their placeholders), the
  theme stylesheet and the two theme buttons, and nothing in storage.
\<close>

definition examplePage :: state where
  "examplePage =
     \<lparr>document = map_of
        (map (\<lambda>(i, p). (i, blank)) fieldMappings @
         map (\<lambda>(p, d). (p, blank\<lparr>el_content := TextContent d\<rparr>)) defaultValues @
         [(js ''theme-stylesheet'', blank\<lparr>el_href := js ''theme-modern.css''\<rparr>),
          (js ''theme-modern'', blank\<lparr>el_classList := [js ''theme-btn'', js ''active'']\<rparr>),
          (js ''theme-classic'', blank\<lparr>el_classList := [js ''theme-btn'']\<rparr>)]),
      localStorage = Map.empty,
      currentTheme = js ''modern'',
      console = []\<rparr>"

definition exampleContent :: jsstring where
  "exampleContent = js ''- a'' @ [0x0A, 0x0A] @ js ''b'' @ [0x0A, 0x2022] @ js '' c''"

definition twoLines :: jsstring where
  "twoLines = js ''a'' @ [0x0A] @ js ''b''"

definition isActive :: "state \<Rightarrow> jsstring \<Rightarrow> bool" where
  "isActive s i =
     (case document s i of
        None \<Rightarrow> False
      | Some btn \<Rightarrow> List.member (el_classList btn) (js ''active''))"

definition stylesheetHref :: "state \<Rightarrow> jsstring option" where
  "stylesheetHref s = map_option el_href (document s (js ''theme-stylesheet''))"

section \<open>What updatePreview and loadFromStorage do with strings\<close>

text \<open>
  The preview element that \<open>updatePreview\<close> looks up for an input id, and the content it
  writes there for a string value.
\<close>

definition previewOf :: "jsstring \<Rightarrow> jsstring" where
  "previewOf k = idString (map_of fieldMappings k)"

definition renderedContent :: "jsstring \<Rightarrow> jsstring \<Rightarrow> content" where
  "renderedContent k str =
     (let displayValue = (if trim str \<noteq> [] then Some (trim str)
                          else map_of defaultValues (previewOf k)) in
      if List.member multilinePreviews (previewOf k)
      then InnerHTML (idString (map_option formatMultilineContent displayValue))
      else TextContent (case displayValue of None \<Rightarrow> [] | Some t \<Rightarrow> t))"

definition writePreview :: "jsstring \<Rightarrow> jsstring \<Rightarrow> state \<Rightarrow> state" where
  "writePreview k str s =
     (case document s (previewOf k) of
        None \<Rightarrow> s
      | Some el \<Rightarrow> setElement (previewOf k) (el\<lparr>el_content := renderedContent k str\<rparr>) s)"

definition loadString :: "jsstring \<times> jsstring \<Rightarrow> state \<Rightarrow> state" where
  "loadString kv s =
     (case document s (fst kv) of
        None \<Rightarrow> s
      | Some el \<Rightarrow>
          if snd kv \<noteq> []
          then writePreview (fst kv) (snd kv) (setElement (fst kv) (el\<lparr>el_value := snd kv\<rparr>) s)
          else s)"

definition stringValued :: "(jsstring \<times> jsstring) list \<Rightarrow> (jsstring \<times> json) list" where
  "stringValued kvs = map (\<lambda>kv. (fst kv, JStr (snd kv))) kvs"

definition exampleEngine :: engine where
  "exampleEngine = \<lparr>numberToBoolean = (\<lambda>n. n \<noteq> js ''0''), numberToString = (\<lambda>n. n)\<rparr>"

text \<open>
  The example page after the user typed a name, with a stored snapshot in which the name
  is empty.
\<close>

definition namedPage :: state where
  "namedPage = examplePage
     \<lparr>document := (document examplePage)
        (js ''input-name'' \<mapsto> blank\<lparr>el_value := js ''Bob''\<rparr>,
         js ''preview-name'' \<mapsto> blank\<lparr>el_content := TextContent (js ''Bob'')\<rparr>),
      localStorage := [js ''resumeFormData'' \<mapsto> js ''{\"input-name\":\"\"}'']\<rparr>"

text \<open>The example page with a stored snapshot of the given text.\<close>

definition storedPage :: "jsstring \<Rightarrow> state" where
  "storedPage savedData = examplePage\<lparr>localStorage := [js ''resumeFormData'' \<mapsto> savedData]\<rparr>"

definition adaSnapshot :: jsstring where
  "adaSnapshot = js ''{\"input-name\":\" Ada\",\"input-title\":\"\"}''"



text \<open>The content that \<open>clearAllData\<close> writes into the preview \<open>q\<close>.\<close>

definition defaultContent :: "jsstring \<Rightarrow> content" where
  "defaultContent q =
     (if List.member multilinePreviews q then InnerHTML (idString (map_of defaultValues q))
      else TextContent (case map_of defaultValues q of None \<Rightarrow> [] | Some t \<Rightarrow> t))"

text \<open>
  A fresh start after \<open>namedPage\<close> was saved: the page as it is served, with the storage
  that \<open>saveToStorage\<close> left.
\<close>

definition reloadedPage :: state where
  "reloadedPage = examplePage\<lparr>localStorage := localStorage (saveToStorage namedPage)\<rparr>"

text \<open>
  What the loop over \<open>querySelectorAll('.theme-btn')\<close> makes of an element: the class
  \<open>active\<close> is taken from an element of class \<open>theme-btn\<close>, any other element is as it
  was.
\<close>

definition withoutActive :: "element \<Rightarrow> element" where
  "withoutActive btn =
     (if List.member (el_classList btn) (js ''theme-btn'')
      then btn\<lparr>el_classList := classList_remove (js ''active'') (el_classList btn)\<rparr>
      else btn)"

text \<open>
  The example page with a modern button that is active and does not carry the class
  \<open>theme-btn\<close>.
\<close>

definition strayPage :: state where
  "strayPage = examplePage
     \<lparr>document := (document examplePage)
        (js ''theme-modern'' \<mapsto> blank\<lparr>el_classList := [js ''active'']\<rparr>)\<rparr>"

section \<open>Facts about the tables and about formatMultilineContent\<close>

lemma never_default: "map_of defaultValues (js ''preview-'' @ c) \<noteq> Some c"
proof
  assume "map_of defaultValues (js ''preview-'' @ c) = Some c"
  then have "(js ''preview-'' @ c, c) \<in> set defaultValues"
    by (rule map_of_SomeD)
  then show False
    by (auto simp: defaultValues_def js_def)
qed

lemma format_nonempty:
  "c \<noteq> [] \<Longrightarrow> formatMultilineContent c =
     concat (map (\<lambda>line. if startsWith line [0x2022] \<or> startsWith line (js ''-'')
                      then bulletBlock line else plainBlock line)
          (filter (\<lambda>line. length line > 0) (map trim (js_split 0x0A c))))"
  using never_default [of c] by (simp add: formatMultilineContent_def eq_commute)

lemma render_lines:
  "concat (map (\<lambda>line. if startsWith line [0x2022] \<or> startsWith line (js ''-'')
                      then bulletBlock line else plainBlock line)
          (filter (\<lambda>line. length line > 0) (map trim ls)))
   = concat (map renderBlock (concat (map lineBlock ls)))"
  by (induction ls) (simp_all add: lineBlock_def Let_def js_def)

lemma format_blocks:
  assumes "content \<noteq> []"
  shows "formatMultilineContent content = concat (map renderBlock (specBlocks content))"
  unfolding specBlocks_def format_nonempty [OF assms] by (rule render_lines)

lemma default_defined:
  "map_of fieldMappings f = Some p \<Longrightarrow> \<exists>d. map_of defaultValues p = Some d"
proof -
  assume "map_of fieldMappings f = Some p"
  then have "(f, p) \<in> set fieldMappings" by (rule map_of_SomeD)
  then show ?thesis
    by (auto simp: fieldMappings_def defaultValues_def js_def)
qed

lemma summary_not_multiline: "js ''preview-summary'' \<notin> set multilinePreviews"
  by (simp add: multilinePreviews_def js_def)

section \<open>Claims about formatMultilineContent\<close>

text \<open>
  \<open>js_split\<close> cuts at every separator and nowhere else: the pieces hold no separator, and
  joined with the separator they give the content back.
\<close>

lemma js_split_nonempty: "js_split sep s \<noteq> []"
  by (induction s) (auto split: list.splits)

lemma js_split_no_separator: "list_all (\<lambda>l. \<not> List.member l sep) (js_split sep s)"
  by (induction s) (auto split: list.splits)

lemma js_split_join: "joinWith [sep] (js_split sep s) = s"
proof (induction s)
  case Nil
  then show ?case by simp
next
  case (Cons c cs)
  obtain l ls where l: "js_split sep cs = l # ls"
    using js_split_nonempty [of sep cs] by (cases "js_split sep cs") auto
  with Cons show ?case
    by (cases ls) auto
qed

text \<open>
  Claim C4. For every non-empty content, \<open>formatMultilineContent\<close> returns the markup of
  the blocks of the specification, in order: one block for each line that is not empty
  after trimming, a bullet block exactly when the trimmed line begins with the bullet or
  a hyphen. The content of four lines "- a", "", "b", "\<bullet> c" gives the three blocks
  bullet "- a", plain "b", bullet "\<bullet> c". (No placeholder needs to be excluded.)
\<close>

theorem formatMultiline_blocks:
  "(content \<noteq> [] \<longrightarrow>
      formatMultilineContent content = concat (map renderBlock (specBlocks content))) \<and>
   specBlocks exampleContent =
     [BulletBlock (js ''- a''), PlainBlock (js ''b''), BulletBlock (0x2022 # js '' c'')] \<and>
   formatMultilineContent exampleContent =
     bulletBlock (js ''- a'') @ plainBlock (js ''b'') @ bulletBlock (0x2022 # js '' c'')"
proof (intro conjI impI)
  show "specBlocks exampleContent =
     [BulletBlock (js ''- a''), PlainBlock (js ''b''), BulletBlock (0x2022 # js '' c'')]"
    by (simp add: specBlocks_def exampleContent_def lineBlock_def trim_def isWhiteSpace_def js_def)
  then show "formatMultilineContent exampleContent =
     bulletBlock (js ''- a'') @ plainBlock (js ''b'') @ bulletBlock (0x2022 # js '' c'')"
    by (simp add: format_blocks exampleContent_def)
qed (rule format_blocks)

theorem formatMultiline_blocks_witness:
  "js ''x'' @ [0x0A] @ js '' - y '' \<noteq> [] \<and>
   formatMultilineContent (js ''x'' @ [0x0A] @ js '' - y '') = js ''<div>x</div><div class=\"bullet-point\">- y</div>''"
  using formatMultiline_blocks [of "js ''x'' @ [0x0A] @ js '' - y ''"]
  by (simp add: specBlocks_def lineBlock_def trim_def isWhiteSpace_def js_def bulletBlock_def plainBlock_def)

text \<open>
  Claim C2. The claim says that the placeholder of a multi-line preview comes back
  unchanged. The comparison in the source looks the placeholder up under the key
  \<open>'preview-' + content\<close>, which never holds the content itself (\<open>never_default\<close>), so
  each of the three placeholders comes back wrapped in a plain block.
\<close>

theorem formatMultiline_default_wrapped:
  "formatMultilineContent (js ''Your work experience will appear here...'') =
     js ''<div>Your work experience will appear here...</div>'' \<and>
   formatMultilineContent (js ''Your education details will appear here...'') =
     js ''<div>Your education details will appear here...</div>'' \<and>
   formatMultilineContent (js ''Your skills will appear here...'') =
     js ''<div>Your skills will appear here...</div>'' \<and>
   map_of defaultValues (js ''preview-experience'') = Some (js ''Your work experience will appear here...'') \<and>
   map_of defaultValues (js ''preview-education'') = Some (js ''Your education details will appear here...'') \<and>
   map_of defaultValues (js ''preview-skills'') = Some (js ''Your skills will appear here...'')"
  by (simp add: format_blocks specBlocks_def lineBlock_def trim_def isWhiteSpace_def js_def plainBlock_def defaultValues_def)

section \<open>Claims about clearAllData\<close>

text \<open>
  Claim C7. When the user declines the confirmation, \<open>clearAllData\<close> returns the state
  it was given: inputs, previews, storage, theme and console are what they were.
\<close>

theorem clearAllData_declined: "clearAllData False s = s"
  by (simp add: clearAllData_def)

section \<open>Claims about updatePreview\<close>

text \<open>
  Claim C10. For a mapped input \<open>f\<close> with preview \<open>p\<close> and any string \<open>v\<close>,
  \<open>updatePreview\<close> returns normally; it leaves the storage, the theme and the console
  alone, leaves every element other than \<open>p\<close> as it was, and changes no element's value,
  class list or href (so of \<open>p\<close> at most the displayed content changes).
\<close>

theorem updatePreview_frame:
  assumes "map_of fieldMappings f = Some p"
  shows "\<exists>s'. updatePreview f (JStr v) s = Inr s' \<and>
           localStorage s' = localStorage s \<and>
           currentTheme s' = currentTheme s \<and>
           console s' = console s \<and>
           (\<forall>i. i \<noteq> p \<longrightarrow> document s' i = document s i) \<and>
           (\<forall>i. inputValue s' i = inputValue s i) \<and>
           (\<forall>i. map_option el_classList (document s' i) = map_option el_classList (document s i)) \<and>
           (\<forall>i. map_option el_href (document s' i) = map_option el_href (document s i))"
  using assms
  by (auto simp: updatePreview_def Let_def getElementById_def idString_def setTextContent_def
      setInnerHTML_def setElement_def inputValue_def split: option.splits)

lemma example_mapping: "map_of fieldMappings (js ''input-skills'') = Some (js ''preview-skills'')"
  by (simp add: fieldMappings_def js_def)

theorem updatePreview_frame_witness:
  "map_of fieldMappings (js ''input-skills'') = Some (js ''preview-skills'') \<and>
   (\<exists>s'. updatePreview (js ''input-skills'') (JStr (js ''SQL'')) examplePage = Inr s' \<and>
      localStorage s' = localStorage examplePage \<and>
      shown s' (js ''preview-name'') = Some (TextContent (js ''Your Name'')) \<and>
      inputValue s' (js ''input-skills'') = Some [])"
proof -
  have m: "map_of fieldMappings (js ''input-skills'') = Some (js ''preview-skills'')"
    by (rule example_mapping)
  have n: "js ''preview-name'' \<noteq> js ''preview-skills''" by (simp add: js_def)
  have a: "shown examplePage (js ''preview-name'') = Some (TextContent (js ''Your Name''))"
    by (simp add: shown_def examplePage_def fieldMappings_def defaultValues_def js_def blank_def)
  have b: "inputValue examplePage (js ''input-skills'') = Some []"
    by (simp add: inputValue_def examplePage_def fieldMappings_def defaultValues_def js_def blank_def)
  from updatePreview_frame [OF m, of "js ''SQL''" examplePage] n a b m show ?thesis
    by (auto simp: shown_def)
qed

text \<open>
  Claim C1 (amended). For a mapped input \<open>f\<close> whose preview \<open>p\<close> is on the page and any
  string \<open>v\<close>, after \<open>updatePreview(f, v)\<close>, and after the listener that calls it and then
  saves: when \<open>p\<close> is not a multi-line preview it shows the text \<open>trim v\<close> if that is
  non-empty and the placeholder of \<open>p\<close> otherwise; when \<open>p\<close> is a multi-line preview and
  \<open>trim v\<close> is non-empty it shows the markup of the blocks of \<open>trim v\<close>.
\<close>

theorem updatePreview_shows:
  assumes "map_of fieldMappings f = Some p" and "document s p = Some el"
  shows "\<exists>d s'. map_of defaultValues p = Some d \<and>
           updatePreview f (JStr v) s = Inr s' \<and>
           inputListener f v s = Inr (saveToStorage s') \<and>
           shown (saveToStorage s') p = shown s' p \<and>
           (if List.member multilinePreviews p
            then (trim v \<noteq> [] \<longrightarrow>
                    shown s' p = Some (InnerHTML (concat (map renderBlock (specBlocks (trim v))))))
            else shown s' p = Some (TextContent (if trim v \<noteq> [] then trim v else d)))"
proof -
  from assms(1) obtain d where d: "map_of defaultValues p = Some d"
    using default_defined by blast
  from assms d have "\<exists>s'. updatePreview f (JStr v) s = Inr s' \<and>
     (if List.member multilinePreviews p
      then (trim v \<noteq> [] \<longrightarrow>
              shown s' p = Some (InnerHTML (concat (map renderBlock (specBlocks (trim v))))))
      else shown s' p = Some (TextContent (if trim v \<noteq> [] then trim v else d)))"
    by (auto simp: updatePreview_def Let_def getElementById_def idString_def setTextContent_def
      setInnerHTML_def setElement_def shown_def format_blocks summary_not_multiline)
  then obtain s' where s': "updatePreview f (JStr v) s = Inr s'"
    "if List.member multilinePreviews p
     then (trim v \<noteq> [] \<longrightarrow>
             shown s' p = Some (InnerHTML (concat (map renderBlock (specBlocks (trim v))))))
     else shown s' p = Some (TextContent (if trim v \<noteq> [] then trim v else d))"
    by blast
  have "inputListener f v s = Inr (saveToStorage s')"
    using s'(1) by (simp add: inputListener_def)
  moreover have "shown (saveToStorage s') p = shown s' p"
    by (simp add: saveToStorage_def Let_def shown_def)
  ultimately show ?thesis using d s' by blast
qed

text \<open>
  The claim as stated fails on a multi-line preview: for the two lines "a" and "b" the
  skills preview receives two blocks of markup, not the string \<open>trim v\<close>.
\<close>

theorem updatePreview_multiline_counterexample:
  "map_of fieldMappings (js ''input-skills'') = Some (js ''preview-skills'') \<and>
   trim twoLines = twoLines \<and> twoLines \<noteq> [] \<and>
   (case updatePreview (js ''input-skills'') (JStr twoLines) examplePage of
      Inl e \<Rightarrow> False
    | Inr s' \<Rightarrow> shown s' (js ''preview-skills'') = Some (InnerHTML (js ''<div>a</div><div>b</div>'')) \<and>
               shown s' (js ''preview-skills'') \<noteq> Some (TextContent (trim twoLines)) \<and>
               shown s' (js ''preview-skills'') \<noteq> Some (InnerHTML (trim twoLines)))"
  by (simp add: updatePreview_def Let_def getElementById_def idString_def setTextContent_def
      setInnerHTML_def setElement_def shown_def format_blocks specBlocks_def lineBlock_def
      trim_def isWhiteSpace_def twoLines_def examplePage_def fieldMappings_def defaultValues_def
      multilinePreviews_def js_def blank_def plainBlock_def)

theorem updatePreview_shows_witness:
  "map_of fieldMappings (js ''input-name'') = Some (js ''preview-name'') \<and>
   document examplePage (js ''preview-name'') =
     Some (blank\<lparr>el_content := TextContent (js ''Your Name'')\<rparr>) \<and>
   (\<exists>s'. updatePreview (js ''input-name'') (JStr (js '' Ada '')) examplePage = Inr s' \<and>
         shown s' (js ''preview-name'') = Some (TextContent (js ''Ada''))) \<and>
   (\<exists>s'. updatePreview (js ''input-name'') (JStr (js ''  '')) examplePage = Inr s' \<and>
         shown s' (js ''preview-name'') = Some (TextContent (js ''Your Name''))) \<and>
   map_of fieldMappings (js ''input-skills'') = Some (js ''preview-skills'') \<and>
   trim (js ''SQL '') \<noteq> [] \<and>
   (\<exists>s'. updatePreview (js ''input-skills'') (JStr (js ''SQL '')) examplePage = Inr s' \<and>
         shown s' (js ''preview-skills'') = Some (InnerHTML (js ''<div>SQL</div>'')))"
proof -
  have m: "map_of fieldMappings (js ''input-name'') = Some (js ''preview-name'')"
    by (simp add: fieldMappings_def js_def)
  have e: "document examplePage (js ''preview-name'') =
      Some (blank\<lparr>el_content := TextContent (js ''Your Name'')\<rparr>)"
    by (simp add: examplePage_def fieldMappings_def defaultValues_def js_def)
  have t: "trim (js '' Ada '') = js ''Ada''" "trim (js ''  '') = []"
    by (simp_all add: trim_def isWhiteSpace_def js_def)
  have n: "\<not> List.member multilinePreviews (js ''preview-name'')"
    by (simp add: multilinePreviews_def js_def)
  have d: "map_of defaultValues (js ''preview-name'') = Some (js ''Your Name'')"
    by (simp add: defaultValues_def js_def)
  have m2: "map_of fieldMappings (js ''input-skills'') = Some (js ''preview-skills'')"
    by (simp add: fieldMappings_def js_def)
  have e2: "document examplePage (js ''preview-skills'') =
      Some (blank\<lparr>el_content := TextContent (js ''Your skills will appear here...'')\<rparr>)"
    by (simp add: examplePage_def fieldMappings_def defaultValues_def js_def)
  have t2: "trim (js ''SQL '') = js ''SQL''"
    by (simp add: trim_def isWhiteSpace_def js_def)
  have n2: "List.member multilinePreviews (js ''preview-skills'')"
    by (simp add: multilinePreviews_def)
  have b2: "concat (map renderBlock (specBlocks (js ''SQL''))) = js ''<div>SQL</div>''"
    by (simp add: specBlocks_def lineBlock_def trim_def isWhiteSpace_def plainBlock_def js_def)
  have s3: "js ''SQL'' \<noteq> []" by (simp add: js_def)
  from updatePreview_shows [OF m e, of "js '' Ada ''"] t n
  have 1: "\<exists>s'. updatePreview (js ''input-name'') (JStr (js '' Ada '')) examplePage = Inr s' \<and>
         shown s' (js ''preview-name'') = Some (TextContent (js ''Ada''))"
    by (auto simp: js_def)
  from updatePreview_shows [OF m e, of "js ''  ''"] t n d
  have 2: "\<exists>s'. updatePreview (js ''input-name'') (JStr (js ''  '')) examplePage = Inr s' \<and>
         shown s' (js ''preview-name'') = Some (TextContent (js ''Your Name''))"
    by auto
  from updatePreview_shows [OF m2 e2, of "js ''SQL ''"] t2 n2 b2 s3
  have 3: "\<exists>s'. updatePreview (js ''input-skills'') (JStr (js ''SQL '')) examplePage = Inr s' \<and>
         shown s' (js ''preview-skills'') = Some (InnerHTML (js ''<div>SQL</div>''))"
    by auto
  from m e 1 2 m2 t2 s3 3 show ?thesis by simp
qed

section \<open>Claims about switchTheme\<close>

lemma theme_ids:
  "js ''theme-'' @ js ''classic'' = js ''theme-classic''"
  "js ''theme-classic'' \<noteq> js ''theme-stylesheet''"
  "js ''theme-modern'' \<noteq> js ''theme-stylesheet''"
  "js ''theme-modern'' \<noteq> js ''theme-classic''"
  "js ''theme-'' @ js ''classic'' @ js ''.css'' = js ''theme-classic.css''"
  "js ''classic'' \<noteq> []"
  by (simp_all add: js_def)

lemma initializeTheme_stored:
  "localStorage s (js ''resumeTheme'') = Some t \<Longrightarrow> t \<noteq> [] \<Longrightarrow>
   initializeTheme s = switchTheme t s"
  by (simp add: initializeTheme_def)

lemma withoutActive_fun:
  "(\<lambda>btn. if js ''theme-btn'' \<in> set (el_classList btn)
          then btn\<lparr>el_classList := classList_remove (js ''active'') (el_classList btn)\<rparr>
          else btn) = withoutActive"
  by (rule ext) (simp add: withoutActive_def)

lemma switchTheme_classic_state:
  assumes "document s (js ''theme-stylesheet'') = Some sheet"
    and "document s (js ''theme-classic'') = Some classic"
  shows "\<exists>s'. switchTheme (js ''classic'') s = Inr s' \<and>
     localStorage s' = (localStorage s)(js ''resumeTheme'' \<mapsto> js ''classic'') \<and>
     currentTheme s' = js ''classic'' \<and>
     console s' = console s \<and>
     (\<forall>i. document s' i =
        (if i = js ''theme-classic''
         then Some ((withoutActive classic)
                \<lparr>el_classList :=
                   classList_add (js ''active'') (el_classList (withoutActive classic))\<rparr>)
         else if i = js ''theme-stylesheet''
         then Some (withoutActive (sheet\<lparr>el_href := js ''theme-classic.css''\<rparr>))
         else map_option withoutActive (document s i)))"
  using assms theme_ids theme_ids(2-4) [symmetric]
  by (simp add: switchTheme_def Let_def getElementById_def setElement_def
      deactivateThemeButtons_def withoutActive_fun withoutActive_def)

lemma active_added: "List.member (classList_add (js ''active'') cs) (js ''active'')"
  by (simp add: classList_add_def)

lemma active_removed: "\<not> List.member (classList_remove (js ''active'') cs) (js ''active'')"
  by (simp add: classList_remove_def)

text \<open>
  Claim C9 (amended). On a page that has the theme stylesheet and the two theme buttons,
  the button \<open>theme-modern\<close> being of class \<open>theme-btn\<close> (the class by which the source
  finds the selector controls), \<open>switchTheme('classic')\<close> returns normally. Afterwards the
  storage is the one before with "classic" stored as the theme, the current theme is
  "classic", the console is as before, the modern button is the element it was with the
  class \<open>active\<close> removed (so it is not active), the classic button is the element it was
  with \<open>active\<close> added (so it is active), the stylesheet points to
  \<open>theme-classic.css\<close>, every other element is as the loop over the theme buttons leaves
  it, and a later \<open>initializeTheme\<close> on the same storage switches to "classic" again.
\<close>

theorem switchTheme_classic:
  assumes "document s (js ''theme-stylesheet'') = Some sheet"
    and "document s (js ''theme-classic'') = Some classic"
    and "document s (js ''theme-modern'') = Some modern"
    and "List.member (el_classList modern) (js ''theme-btn'')"
  shows "\<exists>s'. switchTheme (js ''classic'') s = Inr s' \<and>
           localStorage s' = (localStorage s)(js ''resumeTheme'' \<mapsto> js ''classic'') \<and>
           currentTheme s' = js ''classic'' \<and>
           console s' = console s \<and>
           document s' (js ''theme-modern'') =
             Some (modern\<lparr>el_classList := classList_remove (js ''active'') (el_classList modern)\<rparr>) \<and>
           document s' (js ''theme-classic'') =
             Some ((withoutActive classic)
                \<lparr>el_classList :=
                   classList_add (js ''active'') (el_classList (withoutActive classic))\<rparr>) \<and>
           document s' (js ''theme-stylesheet'') =
             Some (withoutActive (sheet\<lparr>el_href := js ''theme-classic.css''\<rparr>)) \<and>
           (\<forall>i. i \<noteq> js ''theme-classic'' \<and> i \<noteq> js ''theme-stylesheet'' \<longrightarrow>
                 document s' i = map_option withoutActive (document s i)) \<and>
           isActive s' (js ''theme-classic'') \<and>
           \<not> isActive s' (js ''theme-modern'') \<and>
           stylesheetHref s' = Some (js ''theme-classic.css'') \<and>
           (\<forall>s2. localStorage s2 = localStorage s' \<longrightarrow>
                 initializeTheme s2 = switchTheme (js ''classic'') s2)"
proof -
  from switchTheme_classic_state [OF assms(1,2)] obtain s' where
    run: "switchTheme (js ''classic'') s = Inr s'" and
    sto: "localStorage s' = (localStorage s)(js ''resumeTheme'' \<mapsto> js ''classic'')" and
    cur: "currentTheme s' = js ''classic''" and
    con: "console s' = console s" and
    doc: "\<And>i. document s' i =
        (if i = js ''theme-classic''
         then Some ((withoutActive classic)
                \<lparr>el_classList :=
                   classList_add (js ''active'') (el_classList (withoutActive classic))\<rparr>)
         else if i = js ''theme-stylesheet''
         then Some (withoutActive (sheet\<lparr>el_href := js ''theme-classic.css''\<rparr>))
         else map_option withoutActive (document s i))"
    by blast
  have modern: "document s' (js ''theme-modern'') =
      Some (modern\<lparr>el_classList := classList_remove (js ''active'') (el_classList modern)\<rparr>)"
    using assms(3,4) theme_ids(3,4) by (simp add: doc withoutActive_def)
  have classic: "document s' (js ''theme-classic'') =
      Some ((withoutActive classic)
         \<lparr>el_classList := classList_add (js ''active'') (el_classList (withoutActive classic))\<rparr>)"
    by (simp add: doc)
  have sheet: "document s' (js ''theme-stylesheet'') =
      Some (withoutActive (sheet\<lparr>el_href := js ''theme-classic.css''\<rparr>))"
    using theme_ids(2) by (simp add: doc)
  have others: "document s' i = map_option withoutActive (document s i)"
    if "i \<noteq> js ''theme-classic'' \<and> i \<noteq> js ''theme-stylesheet''" for i
    using that by (simp add: doc)
  have act: "isActive s' (js ''theme-classic'')"
    by (simp add: isActive_def classic classList_add_def)
  have inact: "\<not> isActive s' (js ''theme-modern'')"
    by (simp add: isActive_def modern classList_remove_def)
  have href: "stylesheetHref s' = Some (js ''theme-classic.css'')"
    by (simp add: stylesheetHref_def sheet withoutActive_def)
  have again: "initializeTheme s2 = switchTheme (js ''classic'') s2"
    if "localStorage s2 = localStorage s'" for s2
    using that sto theme_ids(6) by (simp add: initializeTheme_stored)
  show ?thesis
    by (intro exI [of _ s'] conjI allI impI run sto cur con modern classic sheet others act
        inact href again) auto
qed

theorem switchTheme_classic_witness:
  "isActive examplePage (js ''theme-modern'') \<and>
   \<not> isActive examplePage (js ''theme-classic'') \<and>
   document examplePage (js ''theme-modern'') =
     Some (blank\<lparr>el_classList := [js ''theme-btn'', js ''active'']\<rparr>) \<and>
   List.member [js ''theme-btn'', js ''active''] (js ''theme-btn'') \<and>
   (\<exists>s'. switchTheme (js ''classic'') examplePage = Inr s' \<and>
      localStorage s' (js ''resumeTheme'') = Some (js ''classic'') \<and>
      currentTheme s' = js ''classic'' \<and>
      document s' (js ''theme-modern'') = Some (blank\<lparr>el_classList := [js ''theme-btn'']\<rparr>) \<and>
      document s' (js ''theme-classic'') =
        Some (blank\<lparr>el_classList := [js ''theme-btn'', js ''active'']\<rparr>) \<and>
      document s' (js ''theme-stylesheet'') = Some (blank\<lparr>el_href := js ''theme-classic.css''\<rparr>) \<and>
      document s' (js ''input-name'') = document examplePage (js ''input-name'') \<and>
      isActive s' (js ''theme-classic'') \<and>
      \<not> isActive s' (js ''theme-modern'') \<and>
      initializeTheme s' = switchTheme (js ''classic'') s')"
proof -
  have a: "document examplePage (js ''theme-stylesheet'') = Some (blank\<lparr>el_href := js ''theme-modern.css''\<rparr>)"
    by (simp add: examplePage_def fieldMappings_def defaultValues_def js_def)
  have b: "document examplePage (js ''theme-classic'') = Some (blank\<lparr>el_classList := [js ''theme-btn'']\<rparr>)"
    by (simp add: examplePage_def fieldMappings_def defaultValues_def js_def)
  have c: "document examplePage (js ''theme-modern'') = Some (blank\<lparr>el_classList := [js ''theme-btn'', js ''active'']\<rparr>)"
    by (simp add: examplePage_def fieldMappings_def defaultValues_def js_def)
  have d: "List.member (el_classList (blank\<lparr>el_classList := [js ''theme-btn'', js ''active'']\<rparr>)) (js ''theme-btn'')"
    by simp
  have e: "isActive examplePage (js ''theme-modern'')" "\<not> isActive examplePage (js ''theme-classic'')"
    by (simp_all add: isActive_def b c) (simp add: js_def)
  have n: "document examplePage (js ''input-name'') = Some blank"
    "js ''input-name'' \<noteq> js ''theme-classic''" "js ''input-name'' \<noteq> js ''theme-stylesheet''"
    by (simp_all add: examplePage_def fieldMappings_def defaultValues_def js_def)
  have w: "withoutActive (blank\<lparr>el_classList := [js ''theme-btn'']\<rparr>) = blank\<lparr>el_classList := [js ''theme-btn'']\<rparr>"
    "withoutActive (blank\<lparr>el_href := js ''theme-classic.css''\<rparr>) = blank\<lparr>el_href := js ''theme-classic.css''\<rparr>"
    "withoutActive blank = blank"
    "classList_remove (js ''active'') [js ''theme-btn'', js ''active''] = [js ''theme-btn'']"
    "classList_add (js ''active'') [js ''theme-btn''] = [js ''theme-btn'', js ''active'']"
    by (simp_all add: withoutActive_def blank_def classList_remove_def classList_add_def js_def)
  from switchTheme_classic [OF a b c d] obtain s' where
    s': "switchTheme (js ''classic'') examplePage = Inr s'"
      "localStorage s' = (localStorage examplePage)(js ''resumeTheme'' \<mapsto> js ''classic'')"
      "currentTheme s' = js ''classic''"
      "document s' (js ''theme-modern'') =
         Some (blank\<lparr>el_classList := [js ''theme-btn'', js ''active''],
                 el_classList := classList_remove (js ''active'')
                   (el_classList (blank\<lparr>el_classList := [js ''theme-btn'', js ''active'']\<rparr>))\<rparr>)"
      "document s' (js ''theme-classic'') =
         Some ((withoutActive (blank\<lparr>el_classList := [js ''theme-btn'']\<rparr>))
           \<lparr>el_classList := classList_add (js ''active'')
              (el_classList (withoutActive (blank\<lparr>el_classList := [js ''theme-btn'']\<rparr>)))\<rparr>)"
      "document s' (js ''theme-stylesheet'') =
         Some (withoutActive (blank\<lparr>el_href := js ''theme-modern.css'', el_href := js ''theme-classic.css''\<rparr>))"
      "\<And>i. i \<noteq> js ''theme-classic'' \<and> i \<noteq> js ''theme-stylesheet'' \<Longrightarrow>
         document s' i = map_option withoutActive (document examplePage i)"
      "isActive s' (js ''theme-classic'')"
      "\<not> isActive s' (js ''theme-modern'')"
      "\<And>s2. localStorage s2 = localStorage s' \<Longrightarrow>
         initializeTheme s2 = switchTheme (js ''classic'') s2"
    by blast
  have 1: "localStorage s' (js ''resumeTheme'') = Some (js ''classic'')"
    by (simp add: s'(2))
  have 2: "document s' (js ''theme-modern'') = Some (blank\<lparr>el_classList := [js ''theme-btn'']\<rparr>)"
    by (simp add: s'(4) w)
  have 3: "document s' (js ''theme-classic'') =
        Some (blank\<lparr>el_classList := [js ''theme-btn'', js ''active'']\<rparr>)"
    by (simp add: s'(5) w)
  have 4: "document s' (js ''theme-stylesheet'') = Some (blank\<lparr>el_href := js ''theme-classic.css''\<rparr>)"
    by (simp add: s'(6) w)
  have 5: "document s' (js ''input-name'') = document examplePage (js ''input-name'')"
    using s'(7) [of "js ''input-name''"] n by (simp add: w)
  have 6: "initializeTheme s' = switchTheme (js ''classic'') s'"
    by (rule s'(10)) simp
  from e c s'(1,3,8,9) 1 2 3 4 5 6 show ?thesis by simp
qed

text \<open>
  The claim as stated asks only that the stylesheet and the selector elements exist. That
  is not enough: a modern button that is active and is not of class \<open>theme-btn\<close> is not
  reached by the loop over \<open>.theme-btn\<close>, and stays active beside the classic one.
\<close>

theorem switchTheme_classic_counterexample:
  "document strayPage (js ''theme-stylesheet'') \<noteq> None \<and>
   document strayPage (js ''theme-classic'') \<noteq> None \<and>
   document strayPage (js ''theme-modern'') \<noteq> None \<and>
   (case switchTheme (js ''classic'') strayPage of
      Inl e \<Rightarrow> False
    | Inr s' \<Rightarrow> isActive s' (js ''theme-modern'') \<and> isActive s' (js ''theme-classic'') \<and>
               currentTheme s' = js ''classic'')"
proof -
  have a: "document strayPage (js ''theme-stylesheet'') = Some (blank\<lparr>el_href := js ''theme-modern.css''\<rparr>)"
    by (simp add: strayPage_def examplePage_def fieldMappings_def defaultValues_def js_def)
  have b: "document strayPage (js ''theme-classic'') = Some (blank\<lparr>el_classList := [js ''theme-btn'']\<rparr>)"
    by (simp add: strayPage_def examplePage_def fieldMappings_def defaultValues_def js_def)
  have c: "document strayPage (js ''theme-modern'') = Some (blank\<lparr>el_classList := [js ''active'']\<rparr>)"
    by (simp add: strayPage_def)
  have n: "js ''active'' \<noteq> js ''theme-btn''" by (simp add: js_def)
  from switchTheme_classic_state [OF a b] obtain s' where
    run: "switchTheme (js ''classic'') strayPage = Inr s'" and
    cur: "currentTheme s' = js ''classic''" and
    doc: "\<And>i. document s' i =
        (if i = js ''theme-classic''
         then Some ((withoutActive (blank\<lparr>el_classList := [js ''theme-btn'']\<rparr>))
                \<lparr>el_classList :=
                   classList_add (js ''active'')
                     (el_classList (withoutActive (blank\<lparr>el_classList := [js ''theme-btn'']\<rparr>)))\<rparr>)
         else if i = js ''theme-stylesheet''
         then Some (withoutActive (blank\<lparr>el_href := js ''theme-modern.css'',
                                         el_href := js ''theme-classic.css''\<rparr>))
         else map_option withoutActive (document strayPage i))"
    by blast
  have "isActive s' (js ''theme-modern'')"
    using theme_ids(3,4) n
    by (simp add: isActive_def doc c withoutActive_def)
  moreover have "isActive s' (js ''theme-classic'')"
    by (simp add: isActive_def doc classList_add_def)
  ultimately show ?thesis
    using a b c run cur by simp
qed

section \<open>Loading string values\<close>

lemma updatePreview_string: "updatePreview k (JStr str) s = Inr (writePreview k str s)"
  by (auto simp: updatePreview_def writePreview_def previewOf_def renderedContent_def Let_def
      getElementById_def setTextContent_def setInnerHTML_def idString_def summary_not_multiline
      split: option.splits)

lemma loadField_string: "loadField h (k, JStr v) s = Inr (loadString (k, v) s)"
  by (simp add: loadField_def loadString_def getElementById_def updatePreview_string
      split: option.splits)

lemma forEach_strings:
  "forEach (loadField h) (stringValued kvs) s = Inr (fold loadString kvs s)"
  by (induction kvs arbitrary: s) (simp_all add: stringValued_def loadField_string)

lemma writePreview_fields [simp]:
  "localStorage (writePreview k str s) = localStorage s"
  "console (writePreview k str s) = console s"
  "currentTheme (writePreview k str s) = currentTheme s"
  by (simp_all add: writePreview_def setElement_def split: option.splits)

lemma writePreview_document:
  "document (writePreview k str s) i =
     (if i = previewOf k
      then map_option (\<lambda>el. el\<lparr>el_content := renderedContent k str\<rparr>) (document s i)
      else document s i)"
  by (simp add: writePreview_def setElement_def split: option.splits)

lemma loadString_fields [simp]:
  "localStorage (loadString kv s) = localStorage s"
  "console (loadString kv s) = console s"
  "currentTheme (loadString kv s) = currentTheme s"
  by (simp_all add: loadString_def setElement_def split: option.splits)

lemma loadString_exists [simp]:
  "(document (loadString kv s) i = None) = (document s i = None)"
  by (simp add: loadString_def writePreview_document setElement_def split: option.splits)

lemma loadString_inputValue:
  "inputValue (loadString kv s) i =
     (if i = fst kv \<and> snd kv \<noteq> [] \<and> document s i \<noteq> None then Some (snd kv)
      else inputValue s i)"
  by (auto simp: loadString_def writePreview_document setElement_def inputValue_def
      option.map_comp comp_def split: option.splits)

lemma loadString_shown:
  "shown (loadString kv s) q =
     (if q = previewOf (fst kv) \<and> snd kv \<noteq> [] \<and> document s (fst kv) \<noteq> None \<and>
         document s q \<noteq> None
      then Some (renderedContent (fst kv) (snd kv))
      else shown s q)"
  by (auto simp: loadString_def writePreview_document setElement_def shown_def
      split: option.splits)

lemma fold_loadString_fields [simp]:
  "localStorage (fold loadString kvs s) = localStorage s"
  "console (fold loadString kvs s) = console s"
  "currentTheme (fold loadString kvs s) = currentTheme s"
  by (induction kvs arbitrary: s) simp_all

lemma fold_loadString_exists [simp]:
  "(document (fold loadString kvs s) i = None) = (document s i = None)"
  by (induction kvs arbitrary: s) simp_all

lemma fold_loadString_inputValue:
  "distinct (map fst kvs) \<Longrightarrow>
   inputValue (fold loadString kvs s) i =
     (case map_of kvs i of
        None \<Rightarrow> inputValue s i
      | Some v \<Rightarrow> if v \<noteq> [] \<and> document s i \<noteq> None then Some v else inputValue s i)"
proof (induction kvs arbitrary: s)
  case Nil
  then show ?case by simp
next
  case (Cons kv kvs)
  show ?case
  proof (cases "i = fst kv")
    case True
    with Cons.prems have "map_of kvs i = None"
      by (simp add: map_of_eq_None_iff)
    with Cons True show ?thesis
      by (simp add: loadString_inputValue)
  next
    case False
    with Cons show ?thesis
      by (simp add: loadString_inputValue split: option.splits)
  qed
qed

lemma fold_loadString_shown_other:
  "\<forall>kv \<in> set kvs. previewOf (fst kv) \<noteq> q \<Longrightarrow> shown (fold loadString kvs s) q = shown s q"
  by (induction kvs arbitrary: s) (auto simp: loadString_shown)

lemma distinct_snd_inj:
  "distinct (map snd xs) \<Longrightarrow> (a, p) \<in> set xs \<Longrightarrow> (b, p) \<in> set xs \<Longrightarrow> a = b"
  by (induction xs) (auto simp: image_iff)

lemma fieldMappings_distinct:
  "distinct (map fst fieldMappings)" "distinct (map snd fieldMappings)"
  "js ''undefined'' \<notin> set (map snd fieldMappings)"
  by (simp_all add: fieldMappings_def js_def)

lemma previewOf_inj:
  assumes "map_of fieldMappings k = Some p" and "previewOf k' = p"
  shows "k' = k"
proof (cases "map_of fieldMappings k'")
  case None
  with assms(2) have "p = js ''undefined''"
    by (simp add: previewOf_def idString_def)
  moreover from assms(1) have "p \<in> set (map snd fieldMappings)"
    by (force dest: map_of_SomeD)
  ultimately show ?thesis using fieldMappings_distinct(3) by simp
next
  case (Some p')
  with assms(2) have "p' = p" by (simp add: previewOf_def idString_def)
  with Some assms(1) have "(k', p) \<in> set fieldMappings" "(k, p) \<in> set fieldMappings"
    by (auto dest: map_of_SomeD)
  with fieldMappings_distinct(2) show ?thesis by (rule distinct_snd_inj)
qed

lemma fold_loadString_shown:
  assumes "distinct (map fst kvs)" and "map_of fieldMappings k = Some p"
  shows "shown (fold loadString kvs s) p =
     (case map_of kvs k of
        None \<Rightarrow> shown s p
      | Some v \<Rightarrow> if v \<noteq> [] \<and> document s k \<noteq> None \<and> document s p \<noteq> None
                  then Some (renderedContent k v) else shown s p)"
  using assms(1)
proof (induction kvs arbitrary: s)
  case Nil
  then show ?case by simp
next
  case (Cons kv kvs)
  have p: "previewOf k = p" using assms(2) by (simp add: previewOf_def idString_def)
  show ?case
  proof (cases "fst kv = k")
    case True
    with Cons.prems have "k \<notin> fst ` set kvs" by auto
    then have "\<forall>kv' \<in> set kvs. previewOf (fst kv') \<noteq> p"
      using previewOf_inj [OF assms(2)] by force
    then have "shown (fold loadString kvs (loadString kv s)) p = shown (loadString kv s) p"
      by (rule fold_loadString_shown_other)
    with True p show ?thesis
      by (auto simp: loadString_shown)
  next
    case False
    then have "previewOf (fst kv) \<noteq> p"
      using previewOf_inj [OF assms(2)] by blast
    with Cons False show ?thesis
      by (simp add: loadString_shown split: option.splits)
  qed
qed

section \<open>Facts about the parser\<close>

declare parseValue.simps [simp del] parseElements.simps [simp del] parseMembers.simps [simp del]
declare natToString.simps [simp del]

lemma parseDigits_length: "parseDigits s = Some (ds, r) \<Longrightarrow> length r \<le> length s"
  using length_dropWhile_le [of isDigit s]
  by (auto simp: parseDigits_def split: if_splits)

lemma parseInt_length: "parseInt s = Some (ds, r) \<Longrightarrow> length r < length s"
  using length_dropWhile_le [of isDigit "tl s"]
  by (cases s) (auto simp: parseInt_def parseDigits_def split: if_splits)

lemma parseFrac_length: "parseFrac s = Some (ds, r) \<Longrightarrow> length r \<le> length s"
  by (cases s) (auto simp: parseFrac_def split: if_splits option.splits dest!: parseDigits_length)

lemma parseExp_length: "parseExp s = Some (ds, r) \<Longrightarrow> length r \<le> length s"
  by (cases s; cases "tl s")
     (auto simp: parseExp_def split: if_splits option.splits dest!: parseDigits_length)

lemma parseNumber_length:
  assumes "parseNumber s = Some (n, r)"
  shows "length r < length s"
proof -
  define s1 where "s1 = drop (length (case s of [] \<Rightarrow> [] | c # cs \<Rightarrow> if c = 0x2D then [c] else [])) s"
  from assms obtain i s2 f s3 e where
    i: "parseInt s1 = Some (i, s2)" and
    f: "parseFrac s2 = Some (f, s3)" and
    e: "parseExp s3 = Some (e, r)"
    by (auto simp: parseNumber_def Let_def s1_def split: option.splits)
  have "length s1 \<le> length s" by (simp add: s1_def)
  moreover from i have "length s2 < length s1" by (rule parseInt_length)
  moreover from f have "length s3 \<le> length s2" by (rule parseFrac_length)
  moreover from e have "length r \<le> length s3" by (rule parseExp_length)
  ultimately show ?thesis by simp
qed

lemma parseValue_Some:
  assumes "parseValue s = Some (v, r)"
  obtains c cs where "skipWs s = c # cs" and
    "(c = 0x7B \<and> (\<exists>d ds. skipWs cs = d # ds \<and>
         (if d = 0x7D then v = JObj [] \<and> r = ds else parseMembers [] cs = Some (v, r)))) \<or>
     (c \<noteq> 0x7B \<and> c = 0x5B \<and> (\<exists>d ds. skipWs cs = d # ds \<and>
         (if d = 0x5D then v = JArr [] \<and> r = ds else parseElements [] cs = Some (v, r)))) \<or>
     (c \<noteq> 0x7B \<and> c \<noteq> 0x5B \<and> length r \<le> length cs \<and> (\<forall>obj. v \<noteq> JObj obj))"
proof -
  from assms obtain c cs where s: "skipWs s = c # cs"
    by (cases "skipWs s") (simp_all add: parseValue.simps [of s])
  consider (obj) "c = 0x7B" | (arr) "c \<noteq> 0x7B" "c = 0x5B" | (other) "c \<noteq> 0x7B" "c \<noteq> 0x5B"
    by blast
  then show thesis
  proof cases
    case obj
    with assms s obtain d ds where d: "skipWs cs = d # ds"
      by (cases "skipWs cs") (simp_all add: parseValue.simps [of s])
    with assms s obj have
      "if d = 0x7D then v = JObj [] \<and> r = ds else parseMembers [] cs = Some (v, r)"
      by (cases "d = 0x7D") (auto simp: parseValue.simps [of s])
    with s obj d that show thesis by blast
  next
    case arr
    with assms s obtain d ds where d: "skipWs cs = d # ds"
      by (cases "skipWs cs") (simp_all add: parseValue.simps [of s])
    with assms s arr have
      "if d = 0x5D then v = JArr [] \<and> r = ds else parseElements [] cs = Some (v, r)"
      by (cases "d = 0x5D") (auto simp: parseValue.simps [of s])
    with s arr d that show thesis by blast
  next
    case other
    have "length r \<le> length cs \<and> (\<forall>obj. v \<noteq> JObj obj)"
    proof (cases "c = 0x22")
      case True
      with assms s other obtain str where "parseChars cs = Some (str, r)" "v = JStr str"
        by (cases "parseChars cs") (auto simp: parseValue.simps [of s])
      with parseChars_length [OF this(1)] show ?thesis by simp
    next
      case False
      show ?thesis
      proof (cases "startsWith (c # cs) (js ''true'') \<or> startsWith (c # cs) (js ''false'') \<or>
          startsWith (c # cs) (js ''null'')")
        case True
        with assms s other False
        have "(r = drop 4 (c # cs) \<or> r = drop 5 (c # cs)) \<and> (\<forall>obj. v \<noteq> JObj obj)"
          by (auto simp: parseValue.simps [of s] split: if_splits)
        then show ?thesis by auto
      next
        case lit: False
        with assms s other False obtain n where "parseNumber (c # cs) = Some (n, r)" "v = JNum n"
          by (cases "parseNumber (c # cs)") (auto simp: parseValue.simps [of s])
        with parseNumber_length [OF this(1)] show ?thesis by simp
      qed
    qed
    with s other that show thesis by blast
  qed
qed

lemma parseElements_Some:
  assumes "parseElements acc s = Some (v, r)"
  obtains v' r' c cs where "parseValue s = Some (v', r')" and "length r' < length s"
    and "skipWs r' = c # cs"
    and "if c = 0x2C then parseElements (acc @ [v']) cs = Some (v, r)
         else v = JArr (acc @ [v']) \<and> r = cs"
proof -
  from assms obtain v' r' where pv: "parseValue s = Some (v', r')"
    by (cases "parseValue s") (auto simp: parseElements.simps [of acc s])
  from assms pv have g: "length r' < length s"
    by (cases "length r' < length s") (simp_all add: parseElements.simps [of acc s])
  from assms pv g obtain c cs where w: "skipWs r' = c # cs"
    by (cases "skipWs r'") (simp_all add: parseElements.simps [of acc s])
  from assms pv g w
  have "if c = 0x2C then parseElements (acc @ [v']) cs = Some (v, r)
        else v = JArr (acc @ [v']) \<and> r = cs"
    by (cases "c = 0x2C"; cases "c = 0x5D") (auto simp: parseElements.simps [of acc s])
  with pv g w that show thesis by blast
qed

lemma parseMembers_Some:
  assumes "parseMembers obj s = Some (v, r)"
  obtains cs k r1 ds v' r' e es where "skipWs s = 0x22 # cs" and "parseChars cs = Some (k, r1)"
    and "skipWs r1 = 0x3A # ds" and "parseValue ds = Some (v', r')" and "length r' < length ds"
    and "skipWs r' = e # es"
    and "if e = 0x2C then parseMembers (setProperty k v' obj) es = Some (v, r)
         else v = JObj (setProperty k v' obj) \<and> r = es"
proof -
  from assms obtain q cs where s: "skipWs s = q # cs"
    by (cases "skipWs s") (simp_all add: parseMembers.simps [of obj s])
  from assms s have q: "q = 0x22"
    by (cases "q = 0x22") (simp_all add: parseMembers.simps [of obj s])
  from assms s q obtain k r1 where k: "parseChars cs = Some (k, r1)"
    by (cases "parseChars cs") (auto simp: parseMembers.simps [of obj s])
  from assms s q k obtain d ds where d: "skipWs r1 = d # ds"
    by (cases "skipWs r1") (simp_all add: parseMembers.simps [of obj s])
  from assms s q k d have colon: "d = 0x3A"
    by (cases "d = 0x3A") (simp_all add: parseMembers.simps [of obj s])
  from assms s q k d colon obtain v' r' where pv: "parseValue ds = Some (v', r')"
    by (cases "parseValue ds") (auto simp: parseMembers.simps [of obj s])
  from assms s q k d colon pv have g: "length r' < length ds"
    by (cases "length r' < length ds") (simp_all add: parseMembers.simps [of obj s])
  from assms s q k d colon pv g obtain e es where e: "skipWs r' = e # es"
    by (cases "skipWs r'") (simp_all add: parseMembers.simps [of obj s])
  from assms s q k d colon pv g e
  have "if e = 0x2C then parseMembers (setProperty k v' obj) es = Some (v, r)
        else v = JObj (setProperty k v' obj) \<and> r = es"
    by (cases "e = 0x2C"; cases "e = 0x7D") (auto simp: parseMembers.simps [of obj s])
  with s q k d colon pv g e that show thesis by blast
qed

lemma parser_consumes:
  "parseValue s = Some (v, r) \<Longrightarrow> length r < length s"
  "parseElements acc s = Some (v, r) \<Longrightarrow> length r < length s"
  "parseMembers obj s = Some (v, r) \<Longrightarrow> length r < length s"
proof (induction s and acc s and obj s arbitrary: v r and v r and v r
    rule: parseValue_parseElements_parseMembers.induct)
  case (1 s)
  from "1.prems" show ?case
  proof (rule parseValue_Some)
    fix c cs
    assume s: "skipWs s = c # cs" and alt:
      "(c = 0x7B \<and> (\<exists>d ds. skipWs cs = d # ds \<and>
         (if d = 0x7D then v = JObj [] \<and> r = ds else parseMembers [] cs = Some (v, r)))) \<or>
       (c \<noteq> 0x7B \<and> c = 0x5B \<and> (\<exists>d ds. skipWs cs = d # ds \<and>
         (if d = 0x5D then v = JArr [] \<and> r = ds else parseElements [] cs = Some (v, r)))) \<or>
       (c \<noteq> 0x7B \<and> c \<noteq> 0x5B \<and> length r \<le> length cs \<and> (\<forall>obj. v \<noteq> JObj obj))"
    have cs: "length cs < length s" using s by (rule skipWs_Cons_length)
    from alt consider
      (obj) d ds where "c = 0x7B" "skipWs cs = d # ds"
        "if d = 0x7D then v = JObj [] \<and> r = ds else parseMembers [] cs = Some (v, r)"
    | (arr) d ds where "c \<noteq> 0x7B" "c = 0x5B" "skipWs cs = d # ds"
        "if d = 0x5D then v = JArr [] \<and> r = ds else parseElements [] cs = Some (v, r)"
    | (other) "length r \<le> length cs"
      by blast
    then show "length r < length s"
    proof cases
      case obj
      show ?thesis
      proof (cases "d = 0x7D")
        case True
        with obj skipWs_Cons_length [OF obj(2)] cs show ?thesis by simp
      next
        case False
        with obj have "parseMembers [] cs = Some (v, r)" by simp
        from "1.IH"(1) [OF s obj(1,2) False this] cs show ?thesis by simp
      qed
    next
      case arr
      show ?thesis
      proof (cases "d = 0x5D")
        case True
        with arr skipWs_Cons_length [OF arr(3)] cs show ?thesis by simp
      next
        case False
        with arr have "parseElements [] cs = Some (v, r)" by simp
        from "1.IH"(2) [OF s arr(1,2,3) False this] cs show ?thesis by simp
      qed
    next
      case other
      with cs show ?thesis by simp
    qed
  qed
next
  case (2 acc s)
  from "2.prems" show ?case
  proof (rule parseElements_Some)
    fix v' r' c cs
    assume pv: "parseValue s = Some (v', r')" and g: "length r' < length s"
      and w: "skipWs r' = c # cs"
      and alt: "if c = 0x2C then parseElements (acc @ [v']) cs = Some (v, r)
         else v = JArr (acc @ [v']) \<and> r = cs"
    from w have cs: "length cs < length r'" by (rule skipWs_Cons_length)
    show "length r < length s"
    proof (cases "c = 0x2C")
      case True
      with alt have "parseElements (acc @ [v']) cs = Some (v, r)" by simp
      from "2.IH"(2) [OF pv refl g w True this] cs g show ?thesis by simp
    next
      case False
      with alt cs g show ?thesis by simp
    qed
  qed
next
  case (3 obj s)
  from "3.prems" show ?case
  proof (rule parseMembers_Some)
    fix cs k r1 ds v' r' e es
    assume s: "skipWs s = 0x22 # cs" and k: "parseChars cs = Some (k, r1)"
      and d: "skipWs r1 = 0x3A # ds" and pv: "parseValue ds = Some (v', r')"
      and g: "length r' < length ds" and e: "skipWs r' = e # es"
      and alt: "if e = 0x2C then parseMembers (setProperty k v' obj) es = Some (v, r)
         else v = JObj (setProperty k v' obj) \<and> r = es"
    have len: "length es < length s"
      using skipWs_Cons_length [OF s] parseChars_length [OF k] skipWs_Cons_length [OF d] g
        skipWs_Cons_length [OF e] by simp
    show "length r < length s"
    proof (cases "e = 0x2C")
      case True
      with alt have "parseMembers (setProperty k v' obj) es = Some (v, r)" by simp
      from "3.IH"(2) [OF s refl k refl d refl pv refl g e True this] len show ?thesis by simp
    next
      case False
      with alt len show ?thesis by simp
    qed
  qed
qed

lemma setProperty_keys:
  "set (map fst (setProperty k v obj)) = insert k (set (map fst obj))"
  by (induction obj) auto

lemma setProperty_distinct:
  "distinct (map fst obj) \<Longrightarrow> distinct (map fst (setProperty k v obj))"
proof (induction obj)
  case Nil
  then show ?case by simp
next
  case (Cons kv obj)
  then show ?case
    using setProperty_keys [of k v obj] by (auto simp del: set_map)
qed

lemma parser_distinct:
  "parseValue s = Some (JObj members, r) \<Longrightarrow> distinct (map fst members)"
  "parseElements acc s = Some (v, r) \<Longrightarrow> \<exists>xs. v = JArr xs"
  "parseMembers obj s = Some (v, r) \<Longrightarrow> distinct (map fst obj) \<Longrightarrow>
     \<exists>members. v = JObj members \<and> distinct (map fst members)"
proof (induction s and acc s and obj s arbitrary: members r and v r and v r
    rule: parseValue_parseElements_parseMembers.induct)
  case (1 s)
  from "1.prems" show ?case
  proof (rule parseValue_Some)
    fix c cs
    assume s: "skipWs s = c # cs" and alt:
      "(c = 0x7B \<and> (\<exists>d ds. skipWs cs = d # ds \<and>
         (if d = 0x7D then JObj members = JObj [] \<and> r = ds
          else parseMembers [] cs = Some (JObj members, r)))) \<or>
       (c \<noteq> 0x7B \<and> c = 0x5B \<and> (\<exists>d ds. skipWs cs = d # ds \<and>
         (if d = 0x5D then JObj members = JArr [] \<and> r = ds
          else parseElements [] cs = Some (JObj members, r)))) \<or>
       (c \<noteq> 0x7B \<and> c \<noteq> 0x5B \<and> length r \<le> length cs \<and> (\<forall>obj. JObj members \<noteq> JObj obj))"
    from alt consider
      (obj) d ds where "c = 0x7B" "skipWs cs = d # ds"
        "if d = 0x7D then members = [] else parseMembers [] cs = Some (JObj members, r)"
    | (arr) d ds where "c \<noteq> 0x7B" "c = 0x5B" "skipWs cs = d # ds" "d \<noteq> 0x5D"
        "parseElements [] cs = Some (JObj members, r)"
      by (auto split: if_splits)
    then show "distinct (map fst members)"
    proof cases
      case obj
      show ?thesis
      proof (cases "d = 0x7D")
        case True
        with obj show ?thesis by simp
      next
        case False
        with obj have "parseMembers [] cs = Some (JObj members, r)" by simp
        from "1.IH"(1) [OF s obj(1,2) False this] show ?thesis by simp
      qed
    next
      case arr
      from "1.IH"(2) [OF s arr(1,2,3,4,5)] show ?thesis by simp
    qed
  qed
next
  case (2 acc s)
  from "2.prems" show ?case
  proof (rule parseElements_Some)
    fix v' r' c cs
    assume pv: "parseValue s = Some (v', r')" and g: "length r' < length s"
      and w: "skipWs r' = c # cs"
      and alt: "if c = 0x2C then parseElements (acc @ [v']) cs = Some (v, r)
         else v = JArr (acc @ [v']) \<and> r = cs"
    show "\<exists>xs. v = JArr xs"
    proof (cases "c = 0x2C")
      case True
      with alt have "parseElements (acc @ [v']) cs = Some (v, r)" by simp
      from "2.IH"(2) [OF pv refl g w True this] show ?thesis .
    next
      case False
      with alt show ?thesis by simp
    qed
  qed
next
  case (3 obj s)
  from "3.prems"(1) show ?case
  proof (rule parseMembers_Some)
    fix cs k r1 ds v' r' e es
    assume s: "skipWs s = 0x22 # cs" and k: "parseChars cs = Some (k, r1)"
      and d: "skipWs r1 = 0x3A # ds" and pv: "parseValue ds = Some (v', r')"
      and g: "length r' < length ds" and e: "skipWs r' = e # es"
      and alt: "if e = 0x2C then parseMembers (setProperty k v' obj) es = Some (v, r)
         else v = JObj (setProperty k v' obj) \<and> r = es"
    have dist: "distinct (map fst (setProperty k v' obj))"
      using "3.prems"(2) by (rule setProperty_distinct)
    show "\<exists>members. v = JObj members \<and> distinct (map fst members)"
    proof (cases "e = 0x2C")
      case True
      with alt have "parseMembers (setProperty k v' obj) es = Some (v, r)" by simp
      from "3.IH"(2) [OF s refl k refl d refl pv refl g e True this dist] show ?thesis .
    next
      case False
      with alt dist show ?thesis by simp
    qed
  qed
qed

lemma JSON_parse_distinct:
  "JSON_parse text = Inr (JObj members) \<Longrightarrow> distinct (map fst members)"
  by (auto simp: JSON_parse_def split: option.splits if_splits dest: parser_distinct(1))

text \<open>The length tests of the parser never fail: without them the equations are the same.\<close>

lemma parseElements_unguarded:
  "parseElements acc s =
     (case parseValue s of
        None \<Rightarrow> None
      | Some (v, r) \<Rightarrow>
          (case skipWs r of
             [] \<Rightarrow> None
           | c # cs \<Rightarrow>
               if c = 0x2C then parseElements (acc @ [v]) cs
               else if c = 0x5D then Some (JArr (acc @ [v]), cs)
               else None))"
  by (cases "parseValue s")
     (auto simp: parseElements.simps [of acc s] dest: parser_consumes(1))

lemma parseMembers_unguarded:
  "parseMembers obj s =
     (case skipWs s of
        [] \<Rightarrow> None
      | q # cs \<Rightarrow>
          if q = 0x22 then
            (case parseChars cs of
               None \<Rightarrow> None
             | Some (k, r) \<Rightarrow>
                 (case skipWs r of
                    [] \<Rightarrow> None
                  | d # ds \<Rightarrow>
                      if d = 0x3A then
                        (case parseValue ds of
                           None \<Rightarrow> None
                         | Some (v, r') \<Rightarrow>
                             (case skipWs r' of
                                [] \<Rightarrow> None
                              | e # es \<Rightarrow>
                                  if e = 0x2C then parseMembers (setProperty k v obj) es
                                  else if e = 0x7D then Some (JObj (setProperty k v obj), es)
                                  else None))
                      else None))
          else None)"
  by (auto simp: parseMembers.simps [of obj s] split: list.splits option.splits
      dest: parser_consumes(1))

section \<open>Facts about the order of keys\<close>

lemma Object_entries_set [simp]: "set (Object_entries obj) = set obj"
  by (auto simp: Object_entries_def)

lemma Object_entries_distinct [simp]:
  "distinct (map fst (Object_entries obj)) = distinct (map fst obj)"
proof -
  have "distinct (Object_entries obj) = distinct obj"
    unfolding Object_entries_def
    by (induction obj) (auto simp: distinct_insort)
  moreover have "inj_on fst (set (Object_entries obj)) = inj_on fst (set obj)"
    by simp
  ultimately show ?thesis by (simp only: distinct_map)
qed

lemma Object_entries_map_of:
  "distinct (map fst obj) \<Longrightarrow> map_of (Object_entries obj) = map_of obj"
  by (rule map_of_inject_set [THEN iffD2]) simp_all

lemma insort_key_stringValued:
  "insort_key (\<lambda>kv. digitsValue (fst kv)) (fst kv, JStr (snd kv)) (stringValued kvs) =
   stringValued (insort_key (\<lambda>kv. digitsValue (fst kv)) kv kvs)"
  by (induction kvs) (simp_all add: stringValued_def)

lemma sort_key_stringValued:
  "sort_key (\<lambda>kv. digitsValue (fst kv)) (stringValued kvs) =
   stringValued (sort_key (\<lambda>kv. digitsValue (fst kv)) kvs)"
proof (induction kvs)
  case Nil
  then show ?case by (simp add: stringValued_def)
next
  case (Cons kv kvs)
  have "sort_key (\<lambda>kv. digitsValue (fst kv)) (stringValued (kv # kvs)) =
      insort_key (\<lambda>kv. digitsValue (fst kv)) (fst kv, JStr (snd kv))
        (sort_key (\<lambda>kv. digitsValue (fst kv)) (stringValued kvs))"
    by (simp add: stringValued_def)
  with Cons show ?case by (simp add: insort_key_stringValued)
qed

lemma filter_stringValued:
  "filter (\<lambda>kv. P (fst kv)) (stringValued kvs) = stringValued (filter (\<lambda>kv. P (fst kv)) kvs)"
  by (induction kvs) (simp_all add: stringValued_def)

lemma Object_entries_stringValued:
  "Object_entries (stringValued kvs) = stringValued (Object_entries kvs)"
proof -
  have "stringValued (xs @ ys) = stringValued xs @ stringValued ys" for xs ys
    by (simp add: stringValued_def)
  then show ?thesis
    using filter_stringValued [of isArrayIndex kvs]
      filter_stringValued [of "\<lambda>k. \<not> isArrayIndex k" kvs]
    by (simp add: Object_entries_def sort_key_stringValued)
qed

section \<open>Facts about loadFromStorage\<close>

lemma JSON_parse_empty: "JSON_parse [] = Inl SyntaxError"
  by (simp add: JSON_parse_def parseValue.simps [of "[]"] skipWs_def)

lemma loadFromStorage_strings:
  assumes "localStorage s (js ''resumeFormData'') = Some savedData"
    and "JSON_parse savedData = Inr (JObj (stringValued snapshot))"
  shows "loadFromStorage h s = Inr (fold loadString (Object_entries snapshot) s)"
proof -
  from assms(2) have "savedData \<noteq> []"
    using JSON_parse_empty by auto
  with assms show ?thesis
    by (simp add: loadFromStorage_def loadTry_def ownEntries_def Object_entries_stringValued
        forEach_strings)
qed

lemma stringValued_keys: "map fst (stringValued kvs) = map fst kvs"
  by (simp add: stringValued_def comp_def)



section \<open>Claims about loadFromStorage\<close>

lemmas parse_eval = JSON_parse_def parseValue.simps parseElements.simps parseMembers.simps
  skipWs_def isJsonWhiteSpace_def consChar_def hex4_def hexValue_def unescape_def
  parseNumber_def parseInt_def parseFrac_def parseExp_def parseDigits_def isDigit_def js_def

lemmas page_eval = examplePage_def fieldMappings_def defaultValues_def blank_def js_def

lemma writePreview_shown:
  "document s (previewOf k) \<noteq> None \<Longrightarrow>
   shown (writePreview k v s) (previewOf k) = Some (renderedContent k v)"
  by (auto simp: shown_def writePreview_document)

text \<open>
  Claim C3 (amended). Given a stored snapshot that parses to an object whose values are
  all strings, \<open>loadFromStorage\<close> returns normally and logs nothing, and for every key
  \<open>k\<close> of the snapshot with value \<open>v\<close>: if \<open>v\<close> is not empty and the page has an
  element \<open>k\<close>, that element's value is \<open>v\<close> afterwards, and the preview mapped to \<open>k\<close>
  (if the page has it) shows what \<open>updatePreview(k, v)\<close> makes it show; otherwise (an
  empty \<open>v\<close>, or no such element) the value of \<open>k\<close> and the preview mapped to \<open>k\<close> are
  as they were.
\<close>

theorem loadFromStorage_writes:
  assumes "localStorage s (js ''resumeFormData'') = Some savedData"
    and "JSON_parse savedData = Inr (JObj (stringValued snapshot))"
  shows "\<exists>s'. loadFromStorage h s = Inr s' \<and> console s' = console s \<and>
     (\<forall>k v. map_of snapshot k = Some v \<longrightarrow>
        (if v \<noteq> [] \<and> document s k \<noteq> None
         then inputValue s' k = Some v \<and>
              (\<forall>p. map_of fieldMappings k = Some p \<longrightarrow> document s p \<noteq> None \<longrightarrow>
                 (\<exists>s''. updatePreview k (JStr v) s = Inr s'' \<and> shown s' p = shown s'' p))
         else inputValue s' k = inputValue s k \<and>
              (\<forall>p. map_of fieldMappings k = Some p \<longrightarrow> shown s' p = shown s p)))"
proof -
  define s' where "s' = fold loadString (Object_entries snapshot) s"
  have load: "loadFromStorage h s = Inr s'"
    unfolding s'_def using assms by (rule loadFromStorage_strings)
  from assms(2) have "distinct (map fst (stringValued snapshot))"
    by (rule JSON_parse_distinct)
  then have dist: "distinct (map fst snapshot)"
    by (simp add: stringValued_keys)
  then have dist': "distinct (map fst (Object_entries snapshot))" by simp
  have val: "inputValue s' k =
     (case map_of snapshot k of
        None \<Rightarrow> inputValue s k
      | Some v \<Rightarrow> if v \<noteq> [] \<and> document s k \<noteq> None then Some v else inputValue s k)" for k
    unfolding s'_def
    using fold_loadString_inputValue [OF dist', of s k] Object_entries_map_of [OF dist]
    by simp
  have shw: "shown s' p =
     (case map_of snapshot k of
        None \<Rightarrow> shown s p
      | Some v \<Rightarrow> if v \<noteq> [] \<and> document s k \<noteq> None \<and> document s p \<noteq> None
                  then Some (renderedContent k v) else shown s p)"
    if "map_of fieldMappings k = Some p" for k p
    unfolding s'_def
    using fold_loadString_shown [OF dist' that, of s] Object_entries_map_of [OF dist]
    by simp
  have upd: "\<exists>s''. updatePreview k (JStr v) s = Inr s'' \<and> shown s'' p = Some (renderedContent k v)"
    if "map_of fieldMappings k = Some p" "document s p \<noteq> None" for k p v
  proof -
    from that(1) have "previewOf k = p" by (simp add: previewOf_def idString_def)
    with that(2) writePreview_shown [of s k v] show ?thesis
      by (simp add: updatePreview_string)
  qed
  have main: "if v \<noteq> [] \<and> document s k \<noteq> None
         then inputValue s' k = Some v \<and>
              (\<forall>p. map_of fieldMappings k = Some p \<longrightarrow> document s p \<noteq> None \<longrightarrow>
                 (\<exists>s''. updatePreview k (JStr v) s = Inr s'' \<and> shown s' p = shown s'' p))
         else inputValue s' k = inputValue s k \<and>
              (\<forall>p. map_of fieldMappings k = Some p \<longrightarrow> shown s' p = shown s p)"
    if k: "map_of snapshot k = Some v" for k v
  proof (cases "v \<noteq> [] \<and> document s k \<noteq> None")
    case True
    have "\<exists>s''. updatePreview k (JStr v) s = Inr s'' \<and> shown s' p = shown s'' p"
      if p: "map_of fieldMappings k = Some p" "document s p \<noteq> None" for p
      using upd [OF p, of v] shw [OF p(1)] k True p(2) by auto
    with True val [of k] k show ?thesis by simp
  next
    case False
    have "shown s' p = shown s p" if p: "map_of fieldMappings k = Some p" for p
      using shw [OF p] k False by auto
    with False val [of k] k show ?thesis by auto
  qed
  have con: "console s' = console s" by (simp add: s'_def)
  show ?thesis
    by (intro exI [of _ s'] conjI allI impI load con main) assumption
qed


text \<open>
  The claim as stated fails for a key whose stored value is the empty string: the guard
  \<open>inputElement && formData[inputId]\<close> skips it, and the input keeps what it held.
\<close>

theorem loadFromStorage_empty_value_counterexample:
  "localStorage namedPage (js ''resumeFormData'') = Some (js ''{\"input-name\":\"\"}'') \<and>
   JSON_parse (js ''{\"input-name\":\"\"}'') = Inr (JObj [(js ''input-name'', JStr [])]) \<and>
   inputValue namedPage (js ''input-name'') = Some (js ''Bob'') \<and>
   (case loadFromStorage exampleEngine namedPage of
      Inl e \<Rightarrow> False
    | Inr s' \<Rightarrow> inputValue s' (js ''input-name'') = Some (js ''Bob'') \<and>
               inputValue s' (js ''input-name'') \<noteq> Some [] \<and>
               shown s' (js ''preview-name'') = Some (TextContent (js ''Bob'')))"
proof -
  have a: "localStorage namedPage (js ''resumeFormData'') = Some (js ''{\"input-name\":\"\"}'')"
    by (simp add: namedPage_def)
  have b: "JSON_parse (js ''{\"input-name\":\"\"}'') = Inr (JObj (stringValued [(js ''input-name'', [])]))"
    by (simp add: parse_eval stringValued_def)
  have c: "Object_entries [(js ''input-name'', [])] = [(js ''input-name'', [] :: jsstring)]"
    by (simp add: Object_entries_def isArrayIndex_def isDigit_def js_def)
  have d: "inputValue namedPage (js ''input-name'') = Some (js ''Bob'')"
    "shown namedPage (js ''preview-name'') = Some (TextContent (js ''Bob''))"
    by (simp_all add: namedPage_def inputValue_def shown_def js_def)
  have "loadFromStorage exampleEngine namedPage = Inr namedPage"
    using loadFromStorage_strings [OF a b, of exampleEngine]
    by (simp add: c loadString_def split: option.splits)
  with a b d show ?thesis
    by (simp add: stringValued_def) (simp add: js_def)
qed

theorem loadFromStorage_writes_witness:
  "localStorage (storedPage adaSnapshot) (js ''resumeFormData'') = Some adaSnapshot \<and>
   JSON_parse adaSnapshot =
     Inr (JObj (stringValued [(js ''input-name'', js '' Ada''), (js ''input-title'', [])])) \<and>
   (\<exists>s'. loadFromStorage exampleEngine (storedPage adaSnapshot) = Inr s' \<and>
      inputValue s' (js ''input-name'') = Some (js '' Ada'') \<and>
      shown s' (js ''preview-name'') = Some (TextContent (js ''Ada'')) \<and>
      inputValue s' (js ''input-title'') = Some [] \<and>
      shown s' (js ''preview-title'') = Some (TextContent (js ''Professional Title'')))"
proof -
  let ?s = "storedPage adaSnapshot"
  let ?snap = "[(js ''input-name'', js '' Ada''), (js ''input-title'', [])]"
  have a: "localStorage ?s (js ''resumeFormData'') = Some adaSnapshot"
    by (simp add: storedPage_def)
  have b: "JSON_parse adaSnapshot = Inr (JObj (stringValued ?snap))"
    by (simp add: adaSnapshot_def parse_eval stringValued_def)
  have k1: "map_of ?snap (js ''input-name'') = Some (js '' Ada'')"
    and k2: "map_of ?snap (js ''input-title'') = Some []"
    by (simp_all add: js_def)
  have m1: "map_of fieldMappings (js ''input-name'') = Some (js ''preview-name'')"
    and m2: "map_of fieldMappings (js ''input-title'') = Some (js ''preview-title'')"
    by (simp_all add: fieldMappings_def js_def)
  have e: "document ?s (js ''input-name'') \<noteq> None" "document ?s (js ''preview-name'') \<noteq> None"
    "js '' Ada'' \<noteq> []"
    by (simp_all add: storedPage_def page_eval)
  have o: "inputValue ?s (js ''input-title'') = Some []"
    "shown ?s (js ''preview-title'') = Some (TextContent (js ''Professional Title''))"
    by (simp_all add: storedPage_def inputValue_def shown_def page_eval)
  have u: "updatePreview (js ''input-name'') (JStr (js '' Ada'')) ?s = Inr s'' \<Longrightarrow>
      shown s'' (js ''preview-name'') = Some (TextContent (js ''Ada''))" for s''
    using e(2) m1
    by (auto simp: updatePreview_string writePreview_document shown_def previewOf_def
        idString_def renderedContent_def Let_def)
       (simp_all add: multilinePreviews_def trim_def isWhiteSpace_def js_def)
  from loadFromStorage_writes [OF a b, of exampleEngine] obtain s' where
    l: "loadFromStorage exampleEngine ?s = Inr s'" and
    r: "\<And>k v. map_of ?snap k = Some v \<Longrightarrow>
        (if v \<noteq> [] \<and> document ?s k \<noteq> None
         then inputValue s' k = Some v \<and>
              (\<forall>p. map_of fieldMappings k = Some p \<longrightarrow> document ?s p \<noteq> None \<longrightarrow>
                 (\<exists>s''. updatePreview k (JStr v) ?s = Inr s'' \<and> shown s' p = shown s'' p))
         else inputValue s' k = inputValue ?s k \<and>
              (\<forall>p. map_of fieldMappings k = Some p \<longrightarrow> shown s' p = shown ?s p))"
    by blast
  from r [OF k1] e m1 u have
    "inputValue s' (js ''input-name'') = Some (js '' Ada'')"
    "shown s' (js ''preview-name'') = Some (TextContent (js ''Ada''))"
    by auto
  moreover from r [OF k2] m2 o have
    "inputValue s' (js ''input-title'') = Some []"
    "shown s' (js ''preview-title'') = Some (TextContent (js ''Professional Title''))"
    by auto
  ultimately show ?thesis using a b l by blast
qed




section \<open>Facts about clearAllData\<close>

lemma clearInput_fields [simp]:
  "localStorage (clearInput k s) = localStorage s"
  "console (clearInput k s) = console s"
  "currentTheme (clearInput k s) = currentTheme s"
  by (simp_all add: clearInput_def getElementById_def setElement_def split: option.splits)

lemma clearInput_document:
  "document (clearInput k s) i =
     (if i = k then map_option (\<lambda>el. el\<lparr>el_value := []\<rparr>) (document s i) else document s i)"
  by (simp add: clearInput_def getElementById_def setElement_def split: option.splits)

lemma fold_clearInput_fields [simp]:
  "localStorage (fold clearInput ks s) = localStorage s"
  "console (fold clearInput ks s) = console s"
  "currentTheme (fold clearInput ks s) = currentTheme s"
  by (induction ks arbitrary: s) simp_all

lemma fold_clearInput_document:
  "document (fold clearInput ks s) i =
     (if i \<in> set ks then map_option (\<lambda>el. el\<lparr>el_value := []\<rparr>) (document s i)
      else document s i)"
  by (induction ks arbitrary: s)
     (auto simp: clearInput_document option.map_comp comp_def)

lemma resetPreview_fields [simp]:
  "localStorage (resetPreview k s) = localStorage s"
  "console (resetPreview k s) = console s"
  "currentTheme (resetPreview k s) = currentTheme s"
  by (simp_all add: resetPreview_def Let_def getElementById_def setElement_def
      setInnerHTML_def setTextContent_def split: option.splits)

lemma resetPreview_document:
  "document (resetPreview k s) i =
     (if i = previewOf k
      then map_option (\<lambda>el. el\<lparr>el_content := defaultContent i\<rparr>) (document s i)
      else document s i)"
  by (simp add: resetPreview_def Let_def getElementById_def setElement_def setInnerHTML_def
      setTextContent_def previewOf_def defaultContent_def split: option.splits)

lemma fold_resetPreview_fields [simp]:
  "localStorage (fold resetPreview ks s) = localStorage s"
  "console (fold resetPreview ks s) = console s"
  "currentTheme (fold resetPreview ks s) = currentTheme s"
  by (induction ks arbitrary: s) simp_all

lemma fold_resetPreview_document:
  "document (fold resetPreview ks s) i =
     (if i \<in> previewOf ` set ks
      then map_option (\<lambda>el. el\<lparr>el_content := defaultContent i\<rparr>) (document s i)
      else document s i)"
  by (induction ks arbitrary: s)
     (auto simp: resetPreview_document option.map_comp comp_def)

lemma loadFromStorage_nothing_stored:
  "localStorage s (js ''resumeFormData'') = None \<Longrightarrow> loadFromStorage h s = Inr s"
  by (simp add: loadFromStorage_def)

section \<open>Claims about clearAllData, confirmed\<close>

text \<open>
  Claim C6. When the user confirms, after \<open>clearAllData\<close> every mapped input that is on
  the page has the empty string as its value, every mapped preview that is on the page
  shows its placeholder (assigned as it is, as markup for the multi-line previews and as
  text for the others), the key \<open>resumeFormData\<close> is absent from the storage, and a
  \<open>loadFromStorage\<close> on any later state with that storage finds nothing and changes
  nothing.
\<close>

theorem clearAllData_confirmed:
  assumes "map_of fieldMappings i = Some p"
  shows "\<exists>d. map_of defaultValues p = Some d \<and>
     inputValue (clearAllData True s) i = map_option (\<lambda>el. []) (document s i) \<and>
     shown (clearAllData True s) p =
       map_option (\<lambda>el. if List.member multilinePreviews p then InnerHTML d else TextContent d)
         (document s p) \<and>
     localStorage (clearAllData True s) (js ''resumeFormData'') = None \<and>
     (\<forall>h s0. localStorage s0 = localStorage (clearAllData True s) \<longrightarrow>
        loadFromStorage h s0 = Inr s0)"
proof -
  from assms obtain d where d: "map_of defaultValues p = Some d"
    using default_defined by blast
  let ?ks = "map fst fieldMappings"
  from assms have i: "i \<in> set ?ks"
    by (force dest: map_of_SomeD)
  from assms have p: "previewOf i = p"
    by (simp add: previewOf_def idString_def)
  with i have pin: "p \<in> previewOf ` set ?ks" by blast
  have dc: "defaultContent p = (if List.member multilinePreviews p then InnerHTML d else TextContent d)"
    using d by (simp add: defaultContent_def idString_def)
  have v: "inputValue (clearAllData True s) i = map_option (\<lambda>el. []) (document s i)"
    using i
    by (simp add: clearAllData_def Let_def inputValue_def fold_resetPreview_document
        fold_clearInput_document option.map_comp comp_def)
  have c: "shown (clearAllData True s) p =
       map_option (\<lambda>el. if List.member multilinePreviews p then InnerHTML d else TextContent d)
         (document s p)"
    using pin dc
    by (simp add: clearAllData_def Let_def shown_def fold_resetPreview_document
        fold_clearInput_document option.map_comp comp_def)
  have l: "localStorage (clearAllData True s) (js ''resumeFormData'') = None"
    by (simp add: clearAllData_def Let_def)
  have "loadFromStorage h s0 = Inr s0"
    if "localStorage s0 = localStorage (clearAllData True s)" for h s0
    using that l by (simp add: loadFromStorage_nothing_stored)
  with d v c l show ?thesis by blast
qed

theorem clearAllData_confirmed_witness:
  "map_of fieldMappings (js ''input-name'') = Some (js ''preview-name'') \<and>
   inputValue namedPage (js ''input-name'') = Some (js ''Bob'') \<and>
   localStorage namedPage (js ''resumeFormData'') \<noteq> None \<and>
   inputValue (clearAllData True namedPage) (js ''input-name'') = Some [] \<and>
   shown (clearAllData True namedPage) (js ''preview-name'') =
     Some (TextContent (js ''Your Name'')) \<and>
   localStorage (clearAllData True namedPage) (js ''resumeFormData'') = None \<and>
   loadFromStorage exampleEngine (clearAllData True namedPage) =
     Inr (clearAllData True namedPage)"
proof -
  have m: "map_of fieldMappings (js ''input-name'') = Some (js ''preview-name'')"
    by (simp add: fieldMappings_def js_def)
  have a: "inputValue namedPage (js ''input-name'') = Some (js ''Bob'')"
    "localStorage namedPage (js ''resumeFormData'') \<noteq> None"
    "document namedPage (js ''input-name'') = Some (blank\<lparr>el_value := js ''Bob''\<rparr>)"
    "document namedPage (js ''preview-name'') = Some (blank\<lparr>el_content := TextContent (js ''Bob'')\<rparr>)"
    by (simp_all add: namedPage_def inputValue_def) (simp_all add: js_def)
  have d: "map_of defaultValues (js ''preview-name'') = Some (js ''Your Name'')"
    "\<not> List.member multilinePreviews (js ''preview-name'')"
    by (simp_all add: defaultValues_def multilinePreviews_def js_def)
  from clearAllData_confirmed [OF m, of namedPage] m a d show ?thesis
    by auto
qed

section \<open>Parsing what JSON.stringify wrote\<close>

lemma unat_hexDigit: "n < 16 \<Longrightarrow> unat (hexDigit n) = (if n < 10 then 48 + n else 87 + n)"
  by (simp add: hexDigit_def unat_of_nat)

lemma hexValue_hexDigit: "n < 16 \<Longrightarrow> hexValue (hexDigit n) = Some n"
  by (simp add: hexValue_def unat_hexDigit Let_def)

lemma hex_digits_sum:
  fixes n :: nat
  shows "n div 4096 * 4096 + n div 256 mod 16 * 256 + n div 16 mod 16 * 16 + n mod 16 = n"
proof -
  have a: "n div 16 div 16 = n div 256" "n div 256 div 16 = n div 4096"
    by (simp_all add: div_mult2_eq [symmetric])
  from div_mult_mod_eq [of n 16] div_mult_mod_eq [of "n div 16" 16]
    div_mult_mod_eq [of "n div 256" 16] a
  show ?thesis by linarith
qed

lemma hex4_digits:
  "hex4 (hexDigit (unat c div 4096)) (hexDigit (unat c div 256 mod 16))
     (hexDigit (unat c div 16 mod 16)) (hexDigit (unat c mod 16)) = Some c"
proof -
  have "unat c < 65536" using unsigned_less [of c, where 'a = nat] by simp
  then have "unat c div 4096 < 16" by simp
  then show ?thesis
    by (simp add: hex4_def hexValue_hexDigit hex_digits_sum)
qed

lemma parseChars_unicodeEscape:
  "parseChars (unicodeEscape c @ rest) = consChar c (parseChars rest)"
  by (simp add: unicodeEscape_def hex4_digits)

lemma parseChars_quoteChar:
  "parseChars (quoteChar c @ rest) = consChar c (parseChars rest)"
  by (simp add: quoteChar_def parseChars_unicodeEscape unescape_def)

lemma surrogate_plain:
  assumes "isLeadSurrogate c \<or> isTrailSurrogate c"
  shows "c \<noteq> 0x22" "c \<noteq> 0x5C" "\<not> unat c < 0x20"
  using assms by (auto simp: isLeadSurrogate_def isTrailSurrogate_def)

lemma parseChars_surrogate:
  "isLeadSurrogate c \<or> isTrailSurrogate c \<Longrightarrow>
   parseChars (c # rest) = consChar c (parseChars rest)"
  using surrogate_plain [of c] by simp

lemma parseChars_quoteChars:
  "parseChars (quoteChars str @ 0x22 # rest) = Some (str, rest)"
proof (induction str rule: quoteChars.induct)
  case 1
  then show ?case by simp
next
  case (2 c)
  then show ?case
    by (simp add: parseChars_unicodeEscape parseChars_quoteChar consChar_def)
next
  case (3 c d ds)
  show ?case
  proof (cases "isLeadSurrogate c \<and> isTrailSurrogate d")
    case True
    then have "parseChars (quoteChars (c # d # ds) @ 0x22 # rest) =
        consChar c (consChar d (parseChars (quoteChars ds @ 0x22 # rest)))"
      by (simp add: parseChars_surrogate del: parseChars.simps)
    with 3(1) [OF True] show ?thesis by (simp add: consChar_def)
  next
    case False
    then have "parseChars (quoteChars (c # d # ds) @ 0x22 # rest) =
        consChar c (parseChars (quoteChars (d # ds) @ 0x22 # rest))"
      by (auto simp add: parseChars_unicodeEscape parseChars_quoteChar
          simp del: parseChars.simps quoteChars.simps(2))
    moreover have "parseChars (quoteChars (d # ds) @ 0x22 # rest) = Some (d # ds, rest)"
    proof (cases "isLeadSurrogate c \<or> isTrailSurrogate c")
      case True
      from 3(2) [OF False True] show ?thesis .
    next
      case nos: False
      from 3(3) [OF False nos] show ?thesis .
    qed
    ultimately show ?thesis by (simp add: consChar_def)
  qed
qed

lemma skipWs_quote [simp]: "skipWs (0x22 # rest) = 0x22 # rest"
  by (simp add: skipWs_def isJsonWhiteSpace_def)

lemma parseValue_QuoteJSONString:
  "parseValue (QuoteJSONString v @ rest) = Some (JStr v, rest)"
  by (simp add: QuoteJSONString_def parseValue.simps [of "0x22 # quoteChars v @ 0x22 # rest"]
      parseChars_quoteChars)

lemma skipWs_punct [simp]:
  "skipWs (0x3A # rest) = 0x3A # rest"
  "skipWs (0x2C # rest) = 0x2C # rest"
  "skipWs (0x7D # rest) = 0x7D # rest"
  "skipWs (0x7B # rest) = 0x7B # rest"
  by (simp_all add: skipWs_def isJsonWhiteSpace_def)

lemma stringifyMember_text:
  "stringifyMember kv @ rest =
     0x22 # quoteChars (fst kv) @ 0x22 # 0x3A # QuoteJSONString (snd kv) @ rest"
  by (simp add: stringifyMember_def QuoteJSONString_def js_def)

lemma parseMembers_comma:
  "parseMembers acc (stringifyMember kv @ 0x2C # rest) =
     parseMembers (setProperty (fst kv) (JStr (snd kv)) acc) rest"
  by (subst parseMembers_unguarded)
     (simp add: stringifyMember_text parseChars_quoteChars parseValue_QuoteJSONString)

lemma parseMembers_brace:
  "parseMembers acc (stringifyMember kv @ 0x7D # rest) =
     Some (JObj (setProperty (fst kv) (JStr (snd kv)) acc), rest)"
  by (subst parseMembers_unguarded)
     (simp add: stringifyMember_text parseChars_quoteChars parseValue_QuoteJSONString)

lemma joinWith_Cons:
  "joinWith sep (x # xs) = (if xs = [] then x else x @ sep @ joinWith sep xs)"
  by (cases xs) simp_all

lemma parseMembers_members:
  "kvs \<noteq> [] \<Longrightarrow>
   parseMembers acc (joinWith (js '','') (map stringifyMember kvs) @ 0x7D # rest) =
     Some (JObj (fold (\<lambda>kv. setProperty (fst kv) (JStr (snd kv))) kvs acc), rest)"
proof (induction kvs arbitrary: acc)
  case Nil
  then show ?case by simp
next
  case (Cons kv kvs)
  show ?case
  proof (cases "kvs = []")
    case True
    then show ?thesis by (simp add: parseMembers_brace)
  next
    case False
    have "joinWith (js '','') (map stringifyMember (kv # kvs)) @ 0x7D # rest =
        stringifyMember kv @ 0x2C # joinWith (js '','') (map stringifyMember kvs) @ 0x7D # rest"
      using False by (simp add: joinWith_Cons js_def)
    with Cons.IH [OF False] show ?thesis
      by (simp add: parseMembers_comma)
  qed
qed

lemma setProperty_fresh:
  "k \<notin> fst ` set obj \<Longrightarrow> setProperty k v obj = obj @ [(k, v)]"
  by (induction obj) auto

lemma fold_setProperty_fresh:
  "distinct (map fst kvs) \<Longrightarrow> fst ` set kvs \<inter> fst ` set acc = {} \<Longrightarrow>
   fold (\<lambda>kv. setProperty (fst kv) (JStr (snd kv))) kvs acc = acc @ stringValued kvs"
proof (induction kvs arbitrary: acc)
  case Nil
  then show ?case by (simp add: stringValued_def)
next
  case (Cons kv kvs)
  from Cons.prems have fresh: "fst kv \<notin> fst ` set acc" by auto
  from Cons.prems have "fst ` set kvs \<inter> fst ` set (acc @ [(fst kv, JStr (snd kv))]) = {}"
    by auto
  with Cons.IH [of "acc @ [(fst kv, JStr (snd kv))]"] Cons.prems(1) fresh show ?case
    by (simp add: setProperty_fresh stringValued_def)
qed

lemma parseValue_object:
  assumes "distinct (map fst kvs)"
  shows "parseValue (js ''{'' @ joinWith (js '','') (map stringifyMember kvs) @ js ''}'') =
     Some (JObj (stringValued kvs), [])"
proof (cases kvs)
  case Nil
  then show ?thesis
    by (simp add: js_def stringValued_def parseValue.simps [of "[0x7B, 0x7D]"])
next
  case (Cons kv kvs')
  let ?members = "joinWith (js '','') (map stringifyMember kvs) @ 0x7D # []"
  have shape: "js ''{'' @ joinWith (js '','') (map stringifyMember kvs) @ js ''}'' = 0x7B # ?members"
    by (simp add: js_def)
  have first: "skipWs ?members = 0x22 # tl ?members"
    using Cons by (simp add: joinWith_Cons stringifyMember_text)
  have "parseValue (0x7B # ?members) = parseMembers [] ?members"
    by (simp add: parseValue.simps [of "0x7B # ?members"] first)
  also have "\<dots> = Some (JObj (fold (\<lambda>kv. setProperty (fst kv) (JStr (snd kv))) kvs []), [])"
    using Cons by (intro parseMembers_members) simp
  also have "fold (\<lambda>kv. setProperty (fst kv) (JStr (snd kv))) kvs [] = stringValued kvs"
    using fold_setProperty_fresh [OF assms, of "[]"] by simp
  finally show ?thesis by (simp only: shape)
qed

lemma JSON_stringify_nonempty: "JSON_stringify obj \<noteq> []"
  by (simp add: JSON_stringify_def js_def)

lemma JSON_parse_stringify:
  assumes "distinct (map fst obj)"
  shows "JSON_parse (JSON_stringify obj) = Inr (JObj (stringValued (Object_entries obj)))"
proof -
  from assms have "distinct (map fst (Object_entries obj))" by simp
  from parseValue_object [OF this] show ?thesis
    by (simp add: JSON_parse_def JSON_stringify_def skipWs_def)
qed

section \<open>Facts about saveToStorage\<close>

lemma setProperty_map_of: "map_of (setProperty k v obj) = (map_of obj)(k \<mapsto> v)"
  by (induction obj) auto

lemma collectInput_distinct:
  "distinct (map fst formData) \<Longrightarrow> distinct (map fst (fold (collectInput s) ks formData))"
  by (induction ks arbitrary: formData)
     (auto simp: collectInput_def setProperty_distinct split: option.splits)

lemma collectInput_map_of:
  "map_of (fold (collectInput s) ks formData) k =
     (if k \<in> set ks \<and> document s k \<noteq> None then inputValue s k else map_of formData k)"
  by (induction ks arbitrary: formData)
     (auto simp: collectInput_def setProperty_map_of getElementById_def inputValue_def
       split: option.splits)

lemma saveToStorage_stored:
  "\<exists>formData. localStorage (saveToStorage s) (js ''resumeFormData'') =
       Some (JSON_stringify formData) \<and>
     distinct (map fst formData) \<and>
     (\<forall>k. map_of formData k =
        (if k \<in> set (map fst fieldMappings) \<and> document s k \<noteq> None then inputValue s k
         else None))"
proof -
  let ?formData = "fold (collectInput s) (map fst (Object_entries fieldMappings)) []"
  have "localStorage (saveToStorage s) (js ''resumeFormData'') = Some (JSON_stringify ?formData)"
    by (simp add: saveToStorage_def Let_def)
  moreover have "distinct (map fst ?formData)"
    by (rule collectInput_distinct) simp
  moreover have "map_of ?formData k =
        (if k \<in> set (map fst fieldMappings) \<and> document s k \<noteq> None then inputValue s k
         else None)" for k
    by (auto simp: collectInput_map_of)
  ultimately show ?thesis by blast
qed

section \<open>Claim about saving and loading\<close>

text \<open>
  Claim C5. Let \<open>s\<close> be any state and \<open>s0\<close> a fresh start with the storage that
  \<open>saveToStorage\<close> left in \<open>s\<close>: a mapped input is on the page of \<open>s0\<close> exactly when it
  is on the page of \<open>s\<close>, and it is empty. Then \<open>loadFromStorage\<close> on \<open>s0\<close> returns
  normally, logs nothing, and every mapped input holds the value it held in \<open>s\<close>.
\<close>

theorem save_load_roundtrip:
  assumes "localStorage s0 = localStorage (saveToStorage s)"
    and "\<forall>i. List.member (map fst fieldMappings) i \<longrightarrow>
           inputValue s0 i = map_option (\<lambda>el. []) (document s i)"
  shows "\<exists>s1. loadFromStorage h s0 = Inr s1 \<and> console s1 = console s0 \<and>
           (\<forall>i. List.member (map fst fieldMappings) i \<longrightarrow> inputValue s1 i = inputValue s i)"
proof -
  from saveToStorage_stored [of s] obtain formData where
    stored: "localStorage (saveToStorage s) (js ''resumeFormData'') = Some (JSON_stringify formData)"
    and dist: "distinct (map fst formData)"
    and look: "\<And>k. map_of formData k =
        (if k \<in> set (map fst fieldMappings) \<and> document s k \<noteq> None then inputValue s k
         else None)"
    by blast
  let ?entries = "Object_entries formData"
  define s1 where "s1 = fold loadString (Object_entries ?entries) s0"
  from assms(1) stored
  have a: "localStorage s0 (js ''resumeFormData'') = Some (JSON_stringify formData)"
    by simp
  have b: "JSON_parse (JSON_stringify formData) = Inr (JObj (stringValued ?entries))"
    using dist by (rule JSON_parse_stringify)
  have load: "loadFromStorage h s0 = Inr s1"
    unfolding s1_def using a b by (rule loadFromStorage_strings)
  have con: "console s1 = console s0" by (simp add: s1_def)
  have d2: "distinct (map fst (Object_entries ?entries))" using dist by simp
  have m2: "map_of (Object_entries ?entries) = map_of formData"
    using dist by (simp add: Object_entries_map_of)
  have val: "inputValue s1 i = inputValue s i" if i: "List.member (map fst fieldMappings) i" for i
  proof -
    from i assms(2) have fresh: "inputValue s0 i = map_option (\<lambda>el. []) (document s i)"
      by blast
    have l: "map_of formData i = (if document s i \<noteq> None then inputValue s i else None)"
      using look [of i] i by simp
    have "inputValue s1 i =
        (case map_of formData i of
           None \<Rightarrow> inputValue s0 i
         | Some v \<Rightarrow> if v \<noteq> [] \<and> document s0 i \<noteq> None then Some v else inputValue s0 i)"
      unfolding s1_def using fold_loadString_inputValue [OF d2, of s0 i] m2 by simp
    with l fresh show ?thesis
      by (cases "document s i") (auto simp: inputValue_def)
  qed
  show ?thesis
    by (intro exI [of _ s1] conjI allI impI load con val)
qed

theorem save_load_roundtrip_witness:
  "localStorage reloadedPage = localStorage (saveToStorage namedPage) \<and>
   list_all (\<lambda>i. inputValue reloadedPage i = map_option (\<lambda>el. []) (document namedPage i))
     (map fst fieldMappings) \<and>
   inputValue namedPage (js ''input-name'') = Some (js ''Bob'') \<and>
   inputValue reloadedPage (js ''input-name'') = Some [] \<and>
   (\<exists>s1. loadFromStorage exampleEngine reloadedPage = Inr s1 \<and>
      inputValue s1 (js ''input-name'') = Some (js ''Bob'') \<and>
      inputValue s1 (js ''input-title'') = Some [])"
proof -
  have a: "localStorage reloadedPage = localStorage (saveToStorage namedPage)"
    by (simp add: reloadedPage_def)
  have b: "list_all (\<lambda>i. inputValue reloadedPage i = map_option (\<lambda>el. []) (document namedPage i))
     (map fst fieldMappings)"
    by (simp add: reloadedPage_def namedPage_def inputValue_def page_eval)
  then have b': "\<forall>i. List.member (map fst fieldMappings) i \<longrightarrow>
      inputValue reloadedPage i = map_option (\<lambda>el. []) (document namedPage i)"
    by (auto simp: list_all_iff)
  have c: "inputValue namedPage (js ''input-name'') = Some (js ''Bob'')"
    "inputValue namedPage (js ''input-title'') = Some []"
    "inputValue reloadedPage (js ''input-name'') = Some []"
    by (simp_all add: reloadedPage_def namedPage_def inputValue_def page_eval)
  have m: "List.member (map fst fieldMappings) (js ''input-name'')"
    "List.member (map fst fieldMappings) (js ''input-title'')"
    by (simp_all add: fieldMappings_def)
  from save_load_roundtrip [OF a b', of exampleEngine] obtain s1 where
    "loadFromStorage exampleEngine reloadedPage = Inr s1"
    "\<And>i. List.member (map fst fieldMappings) i \<Longrightarrow> inputValue s1 i = inputValue namedPage i"
    by blast
  with m c a b show ?thesis by auto
qed

end
